theory Spec2Isabelle
  imports Main "HOL-Library.AList"
begin

section \<open>Slot-based containers (packages/core/src/container.ts)\<close>

text \<open>
  A shallow embedding of the class \<open>Container\<close>. Item stacks, containers and players are
  objects with identity, so the model keeps a store: item stacks and traits live in heaps
  indexed by references, a container is addressed by its reference, and every method takes
  the world and returns the new one. Packets handed to \<open>player.send\<close> are appended to a log.
\<close>

subsection \<open>JavaScript numbers used as array keys\<close>

text \<open>
  A slot is a JavaScript number. The model covers the integers and \<open>NaN\<close>, which is what
  \<open>slot % 0\<close> evaluates to. \<open>js_rem\<close> is the operator \<open>%\<close>: the result takes the sign of
  the dividend (\<open>-1 % 9\<close> is \<open>-1\<close>), and \<open>-0\<close> is the array index \<open>0\<close>.
\<close>

datatype Key = NaN | Num int

fun js_rem :: "Key \<Rightarrow> nat \<Rightarrow> Key" where
  "js_rem NaN n = NaN"
| "js_rem (Num i) n = (if n = 0 then NaN else Num (sgn i * (\<bar>i\<bar> mod int n)))"

subsection \<open>Objects\<close>

type_synonym ItemRef = nat
type_synonym TraitRef = nat
type_synonym ContainerRef = nat
type_synonym PlayerRef = nat

text \<open>
  Modelled from the spec: the class \<open>ItemStack\<close> (./item) is not among the sources. An item
  stack identifies a type, carries \<open>stackSize\<close> and \<open>maxStackSize\<close>, whether its type
  stacks, a back-reference to the owning container, and auxiliary state: dynamic
  properties, attached traits (behaviour extensions) and persisted tags.
\<close>

record ItemStack =
  item_identifier :: string
  stackSize :: int
  maxStackSize :: int
  isStackable :: bool
  container :: "ContainerRef option"
  dynamicProperties :: "(string \<times> string) list"
  traits :: "TraitRef list"
  nbt :: "(string \<times> string) list"

text \<open>
  Modelled from the spec: an item trait (behaviour extension) is not among the sources. It
  has a kind and the item stack it is attached to.
\<close>

record Trait =
  traitIdentifier :: string
  traitItem :: ItemRef

text \<open>
  The array \<open>storage\<close>. Its elements are \<open>elems\<close>; a write under a key that is not an array
  index (a negative number, \<open>NaN\<close>) creates a property of the array object, kept in
  \<open>props\<close>. \<open>None\<close> stands for \<open>null\<close> and for \<open>undefined\<close>, which every reader of the
  source treats alike (\<open>?? null\<close>, truthiness).
\<close>

record Storage =
  elems :: "ItemRef option list"
  props :: "Key \<Rightarrow> ItemRef option"

record Container =
  ctype :: nat
  cidentifier :: "int option"
  storage :: Storage
  occupants :: "(PlayerRef \<times> int) list"

datatype NetworkItemStackDescriptor = Descriptor0 | ToNetworkStack ItemStack

datatype Packet =
    InventorySlotPacket int Key NetworkItemStackDescriptor
  | InventoryContentPacket int "NetworkItemStackDescriptor list"
  | ContainerClosePacket int nat bool

datatype HookEvent = OnContainerOpen TraitRef PlayerRef | OnContainerClose TraitRef PlayerRef

datatype error = SizeNegative | NotViewing

record World =
  items :: "ItemRef \<Rightarrow> ItemStack"
  nextItemRef :: ItemRef
  traitHeap :: "TraitRef \<Rightarrow> Trait"
  nextTraitRef :: TraitRef
  containers :: "ContainerRef \<Rightarrow> Container"
  openedContainer :: "PlayerRef \<Rightarrow> ContainerRef option"
  sent :: "(PlayerRef \<times> Packet) list"
  hookLog :: "HookEvent list"
  nextContainerId :: int

subsection \<open>Array operations\<close>

text \<open>\<open>storage[k] ?? null\<close>.\<close>

fun storage_get :: "Storage \<Rightarrow> Key \<Rightarrow> ItemRef option" where
  "storage_get s NaN = props s NaN"
| "storage_get s (Num i) =
     (if 0 \<le> i \<and> nat i < length (elems s) then elems s ! nat i else props s (Num i))"

text \<open>
  \<open>storage[k] = v\<close>. An index at or beyond the length extends the array; the methods of the
  class only write under a key reduced by \<open>%\<close>, which is below the length.
\<close>

fun storage_set :: "Storage \<Rightarrow> Key \<Rightarrow> ItemRef option \<Rightarrow> Storage" where
  "storage_set s NaN v = s\<lparr>props := (props s)(NaN := v)\<rparr>"
| "storage_set s (Num i) v =
     (if i < 0 then s\<lparr>props := (props s)(Num i := v)\<rparr>
      else if nat i < length (elems s) then s\<lparr>elems := (elems s)[nat i := v]\<rparr>
      else s\<lparr>elems := elems s @ replicate (nat i - length (elems s)) None @ [v]\<rparr>)"

text \<open>\<open>storage.at(k)\<close>: a negative index counts from the end, \<open>NaN\<close> is index 0.\<close>

definition storage_at :: "Storage \<Rightarrow> Key \<Rightarrow> ItemRef option" where
  "storage_at s k =
     (let n = int (length (elems s));
          i = (case k of NaN \<Rightarrow> 0 | Num i \<Rightarrow> i);
          j = (if i < 0 then n + i else i)
      in if 0 \<le> j \<and> j < n then elems s ! nat j else None)"

text \<open>\<open>findIndex\<close>, with \<open>None\<close> for \<open>-1\<close>; \<open>indexOf(null)\<close> is \<open>findIndex\<close> of \<open>=== null\<close>.\<close>

fun findIndex :: "('a \<Rightarrow> bool) \<Rightarrow> 'a list \<Rightarrow> nat option" where
  "findIndex P [] = None"
| "findIndex P (x # xs) =
     (if P x then Some 0 else map_option Suc (findIndex P xs))"

definition indexOf_null :: "ItemRef option list \<Rightarrow> nat option" where
  "indexOf_null xs = findIndex (\<lambda>x. x = None) xs"

subsection \<open>The size of a container\<close>

definition size_of :: "World \<Rightarrow> ContainerRef \<Rightarrow> nat" where
  "size_of w c = length (elems (storage (containers w c)))"

text \<open>
  The setter of \<open>size\<close>: \<open>slice(0, value)\<close>, then a new array of \<open>value\<close> elements with
  \<open>existingItems[i] || null\<close>. The new array has no properties.
\<close>

definition set_size :: "int \<Rightarrow> Container \<Rightarrow> error + Container" where
  "set_size v c =
     (if v < 0 then Inl SizeNegative
      else let existingItems = take (nat v) (elems (storage c))
           in Inr (c\<lparr>storage :=
                \<lparr>elems = map (\<lambda>i. if i < length existingItems then existingItems ! i else None)
                              [0 ..< nat v],
                 props = (\<lambda>_. None)\<rparr>\<rparr>))"

text \<open>The constructor: the setter on the empty storage, then an array of \<open>null\<close>.\<close>

definition new_Container :: "nat \<Rightarrow> int \<Rightarrow> error + Container" where
  "new_Container t sz =
     (case set_size sz \<lparr>ctype = t, cidentifier = None,
                        storage = \<lparr>elems = [], props = (\<lambda>_. None)\<rparr>, occupants = []\<rparr> of
        Inl e \<Rightarrow> Inl e
      | Inr c \<Rightarrow> Inr (c\<lparr>storage := \<lparr>elems = replicate (nat sz) None, props = (\<lambda>_. None)\<rparr>\<rparr>))"

subsection \<open>Reading, writing and clearing a slot\<close>

definition getItem :: "World \<Rightarrow> ContainerRef \<Rightarrow> Key \<Rightarrow> ItemRef option" where
  "getItem w c slot =
     storage_get (storage (containers w c)) (js_rem slot (size_of w c))"

text \<open>Modelled from the spec: the network descriptor of a stack, or the empty descriptor.\<close>

definition descriptor :: "World \<Rightarrow> ItemRef option \<Rightarrow> NetworkItemStackDescriptor" where
  "descriptor w x = (case x of None \<Rightarrow> Descriptor0 | Some r \<Rightarrow> ToNetworkStack (items w r))"

definition updateSlot :: "ContainerRef \<Rightarrow> Key \<Rightarrow> World \<Rightarrow> World" where
  "updateSlot c slot w =
     (let item = descriptor w (storage_at (storage (containers w c)) slot)
      in w\<lparr>sent := sent w @
             map (\<lambda>(player, ident). (player, InventorySlotPacket ident slot item))
                 (occupants (containers w c))\<rparr>)"

definition write_slot :: "ContainerRef \<Rightarrow> Key \<Rightarrow> ItemRef option \<Rightarrow> World \<Rightarrow> World" where
  "write_slot c slot v w =
     w\<lparr>containers := (containers w)
          (c := (containers w c)\<lparr>storage := storage_set (storage (containers w c)) slot v\<rparr>)\<rparr>"

definition clearSlot :: "ContainerRef \<Rightarrow> Key \<Rightarrow> World \<Rightarrow> World" where
  "clearSlot c slot0 w =
     (let slot = js_rem slot0 (size_of w c);
          w1 = write_slot c slot None w
      in if occupants (containers w1 c) = [] then w1 else updateSlot c slot w1)"

text \<open>The sentinel \<open>ItemIdentifier.Air\<close> of the enumeration of item identifiers.\<close>

definition Air :: string where
  "Air = ''minecraft:air''"

definition setItem :: "ContainerRef \<Rightarrow> Key \<Rightarrow> ItemRef \<Rightarrow> World \<Rightarrow> World" where
  "setItem c slot0 item w =
     (let slot = js_rem slot0 (size_of w c);
          w1 = write_slot c slot (Some item) w;
          w2 = (if stackSize (items w1 item) = 0 \<or> item_identifier (items w1 item) = Air
                then clearSlot c slot w1 else w1);
          w3 = w2\<lparr>items := (items w2)(item := (items w2 item)\<lparr>container := Some c\<rparr>)\<rparr>
      in updateSlot c slot w3)"

subsection \<open>The allocator of container identifiers\<close>

text \<open>
  \<open>ContainerId.First\<close> and \<open>ContainerId.Last\<close> belong to the protocol package; they are
  parameters here. The counter starts at \<open>First\<close>.
\<close>

definition getNextContainerId :: "int \<Rightarrow> int \<Rightarrow> World \<Rightarrow> int \<times> World" where
  "getNextContainerId First Last w =
     (let ident = nextContainerId w;
          w1 = w\<lparr>nextContainerId := nextContainerId w + 1\<rparr>
      in if ident > Last then (First, w1\<lparr>nextContainerId := First\<rparr>) else (ident, w1))"

text \<open>The identifiers yielded by \<open>n\<close> calls in a row.\<close>

fun nextIds :: "int \<Rightarrow> int \<Rightarrow> nat \<Rightarrow> World \<Rightarrow> int list" where
  "nextIds First Last 0 w = []"
| "nextIds First Last (Suc n) w =
     (case getNextContainerId First Last w of (i, w') \<Rightarrow> i # nextIds First Last n w')"

subsection \<open>Methods of an item stack\<close>

text \<open>
  Modelled from the spec: \<open>incrementStack\<close>, \<open>decrementStack\<close> and the assignment to
  \<open>stackSize\<close> belong to \<open>ItemStack\<close>, which is not among the sources. The spec gives
  them the change of the quantity of the stack object (increment the target, decrement the
  source), and the three definitions below are that change. The spec does not say whether
  such a change is also broadcast to the viewers of the owning container: the statements
  that use these definitions are about quantities and slots, never about the packets sent,
  and \<open>removeItem\<close>, whose traffic is in question, takes its decrement as a parameter.
\<close>

definition setStackSize :: "ItemRef \<Rightarrow> int \<Rightarrow> World \<Rightarrow> World" where
  "setStackSize r n w = w\<lparr>items := (items w)(r := (items w r)\<lparr>stackSize := n\<rparr>)\<rparr>"

definition incrementStack :: "ItemRef \<Rightarrow> int \<Rightarrow> World \<Rightarrow> World" where
  "incrementStack r n w = setStackSize r (stackSize (items w r) + n) w"

definition decrementStack :: "ItemRef \<Rightarrow> int \<Rightarrow> World \<Rightarrow> World" where
  "decrementStack r n w = setStackSize r (stackSize (items w r) - n) w"



text \<open>
  Modelled from the spec: \<open>item.equals(slot)\<close> is equality by type-compatibility, not
  identity of the instances.
\<close>

definition equals :: "ItemStack \<Rightarrow> ItemStack \<Rightarrow> bool" where
  "equals a b = (item_identifier a = item_identifier b)"

text \<open>
  Modelled from the spec: the constructor \<open>new ItemStack(type, {...item, stackSize: n})\<close>
  is not among the sources. It yields a fresh instance of the same type holding \<open>n\<close>
  units; the maximum and the stacking rule follow the type. The stack has no owning
  container and no trait yet. Its storage (dynamic properties and tags) is the one handed
  over with the spread properties, and a new, empty one when the call passes
  \<open>storage: undefined\<close>.
\<close>

definition new_ItemStack :: "ItemStack \<Rightarrow> int \<Rightarrow> bool \<Rightarrow> World \<Rightarrow> ItemRef \<times> World" where
  "new_ItemStack item n keepStorage w =
     (let r = nextItemRef w;
          s = item\<lparr>stackSize := n, container := None, traits := [],
                   dynamicProperties := (if keepStorage then dynamicProperties item else []),
                   nbt := (if keepStorage then nbt item else [])\<rparr>
      in (r, w\<lparr>items := (items w)(r := s), nextItemRef := Suc r\<rparr>))"






subsection \<open>Adding a stack\<close>

text \<open>The predicate of the \<open>findIndex\<close> call of \<open>addItem\<close>.\<close>

definition mergeable :: "World \<Rightarrow> ItemRef \<Rightarrow> ItemRef option \<Rightarrow> bool" where
  "mergeable w item slot =
     (case slot of None \<Rightarrow> False
      | Some r \<Rightarrow> stackSize (items w r) < maxStackSize (items w r) \<and>
                  equals (items w item) (items w r))"

text \<open>
  The \<open>while\<close> loop of \<open>addItem\<close>. The loop need not end (a stack whose maximum is 0 makes
  no progress), so the result is an option and \<open>None\<close> is a loop that runs forever. The
  slot found by \<open>findIndex\<close> holds a stack, since the predicate asks for one; the branch
  for an empty slot there is never taken.
\<close>

partial_function (option) addLoop :: "ContainerRef \<Rightarrow> ItemRef \<Rightarrow> World \<Rightarrow> World option" where
  "addLoop c item w =
     (if stackSize (items w item) > 0 then
        (case findIndex (mergeable w item) (elems (storage (containers w c))) of
           Some existingSlotIndex \<Rightarrow>
             (case elems (storage (containers w c)) ! existingSlotIndex of
                Some existingItem \<Rightarrow>
                  (let amountToAdd = min (maxStackSize (items w existingItem) -
                                            stackSize (items w existingItem))
                                         (stackSize (items w item));
                       w1 = incrementStack existingItem amountToAdd w;
                       w2 = decrementStack item amountToAdd w1
                   in addLoop c item w2)
              | None \<Rightarrow> None)
         | None \<Rightarrow>
             (case indexOf_null (elems (storage (containers w c))) of
                Some emptySlotIndex \<Rightarrow>
                  (let amountToSet = min (maxStackSize (items w item)) (stackSize (items w item))
                   in case new_ItemStack (items w item) amountToSet True w of
                        (newItem, w1) \<Rightarrow>
                          (let w2 = setItem c (Num (int emptySlotIndex)) newItem w1;
                               w3 = decrementStack item amountToSet w2
                           in addLoop c item w3))
              | None \<Rightarrow> Some w))
      else Some w)"

definition addItem :: "ContainerRef \<Rightarrow> ItemRef \<Rightarrow> World \<Rightarrow> (bool \<times> World) option" where
  "addItem c item w =
     (if \<not> isStackable (items w item) then
        (case indexOf_null (elems (storage (containers w c))) of
           Some emptySlot \<Rightarrow>
             (let w1 = setItem c (Num (int emptySlot)) item w;
                  w2 = setStackSize item 0 w1
              in Some (True, w2))
         | None \<Rightarrow> Some (False, w))
      else map_option (\<lambda>w'. (stackSize (items w' item) = 0, w')) (addLoop c item w))"

subsection \<open>Removing and taking\<close>



subsection \<open>Swapping\<close>

definition swapItems ::
  "ContainerRef \<Rightarrow> Key \<Rightarrow> Key \<Rightarrow> ContainerRef option \<Rightarrow> World \<Rightarrow> World" where
  "swapItems c slot0 otherSlot0 otherContainer w =
     (let slot = js_rem slot0 (size_of w c);
          otherSlot = js_rem otherSlot0
                        (case otherContainer of Some oc \<Rightarrow> size_of w oc | None \<Rightarrow> size_of w c);
          targetContainer = (case otherContainer of Some oc \<Rightarrow> oc | None \<Rightarrow> c);
          item = getItem w c slot;
          otherItem = getItem w targetContainer otherSlot;
          w1 = clearSlot c slot w;
          w2 = clearSlot targetContainer otherSlot w1;
          w3 = (case item of Some i \<Rightarrow> setItem targetContainer otherSlot i w2 | None \<Rightarrow> w2);
          w4 = (case otherItem of Some i \<Rightarrow> setItem c slot i w3 | None \<Rightarrow> w3)
      in w4)"

subsection \<open>Clearing everything\<close>

definition update :: "ContainerRef \<Rightarrow> World \<Rightarrow> World" where
  "update c w =
     (let its = map (descriptor w) (elems (storage (containers w c)))
      in w\<lparr>sent := sent w @
             map (\<lambda>(player, ident). (player, InventoryContentPacket ident its))
                 (occupants (containers w c))\<rparr>)"

definition clear :: "ContainerRef \<Rightarrow> World \<Rightarrow> World" where
  "clear c w =
     (let w1 = w\<lparr>containers := (containers w)(c := (containers w c)
                   \<lparr>storage := \<lparr>elems = replicate (size_of w c) None, props = (\<lambda>_. None)\<rparr>\<rparr>)\<rparr>
      in if occupants (containers w1 c) = [] then w1 else update c w1)"

subsection \<open>Viewers\<close>

text \<open>
  The traits of the stacks in the array, in slot order: the receivers of the optional
  hooks \<open>onContainerOpen\<close> and \<open>onContainerClose\<close>. A call of a hook is recorded in a log.
\<close>

definition storedTraits :: "World \<Rightarrow> ContainerRef \<Rightarrow> TraitRef list" where
  "storedTraits w c =
     concat (map (\<lambda>x. case x of None \<Rightarrow> [] | Some r \<Rightarrow> traits (items w r))
                 (elems (storage (containers w c))))"

definition close :: "ContainerRef \<Rightarrow> PlayerRef \<Rightarrow> bool \<Rightarrow> World \<Rightarrow> error + World" where
  "close c player serverInitiated w =
     (case map_of (occupants (containers w c)) player of
        None \<Rightarrow> Inl NotViewing
      | Some ident \<Rightarrow>
          (let w1 = w\<lparr>sent := sent w @
                        [(player, ContainerClosePacket ident (ctype (containers w c))
                                    serverInitiated)]\<rparr>;
               w2 = w1\<lparr>openedContainer := (openedContainer w1)(player := None)\<rparr>;
               w3 = w2\<lparr>containers := (containers w2)(c := (containers w2 c)
                          \<lparr>occupants := AList.delete player (occupants (containers w2 c))\<rparr>)\<rparr>;
               w4 = w3\<lparr>hookLog := hookLog w3 @
                          map (\<lambda>t. OnContainerClose t player) (storedTraits w3 c)\<rparr>
           in Inr w4))"

definition showContainer ::
  "int \<Rightarrow> int \<Rightarrow> ContainerRef \<Rightarrow> PlayerRef \<Rightarrow> World \<Rightarrow> error + (int \<times> World)" where
  "showContainer First Last c player w =
     (case (case openedContainer w player of
              Some oc \<Rightarrow> close oc player True w
            | None \<Rightarrow> Inr w) of
        Inl e \<Rightarrow> Inl e
      | Inr w1 \<Rightarrow>
          (case getNextContainerId First Last w1 of
             (ident, w2) \<Rightarrow>
               (let w3 = w2\<lparr>containers := (containers w2)(c := (containers w2 c)
                               \<lparr>occupants := AList.update player ident
                                                (occupants (containers w2 c))\<rparr>)\<rparr>;
                    w4 = w3\<lparr>openedContainer := (openedContainer w3)(player := Some c)\<rparr>;
                    w5 = w4\<lparr>hookLog := hookLog w4 @
                               map (\<lambda>t. OnContainerOpen t player) (storedTraits w4 c)\<rparr>
                in Inr (ident, w5))))"

text \<open>A sequence of \<open>show\<close> calls by one player; an error ends it.\<close>

fun showAll ::
  "int \<Rightarrow> int \<Rightarrow> ContainerRef list \<Rightarrow> PlayerRef \<Rightarrow> World \<Rightarrow> error + World" where
  "showAll First Last [] player w = Inr w"
| "showAll First Last (c # cs) player w =
     (case showContainer First Last c player w of
        Inl e \<Rightarrow> Inl e
      | Inr (ident, w') \<Rightarrow> showAll First Last cs player w')"

subsection \<open>A world to start from\<close>

definition blankItem :: ItemStack where
  "blankItem = \<lparr>item_identifier = [], stackSize = 0, maxStackSize = 64, isStackable = True,
                container = None, dynamicProperties = [], traits = [], nbt = []\<rparr>"

definition emptyContainer :: "nat \<Rightarrow> Container" where
  "emptyContainer n = \<lparr>ctype = 0, cidentifier = None,
                       storage = \<lparr>elems = replicate n None, props = (\<lambda>_. None)\<rparr>,
                       occupants = []\<rparr>"

text \<open>No item stack allocated, every container of capacity \<open>n\<close> and empty, nobody viewing.\<close>

definition world0 :: "nat \<Rightarrow> int \<Rightarrow> World" where
  "world0 n First =
     \<lparr>items = (\<lambda>_. blankItem), nextItemRef = 0,
      traitHeap = (\<lambda>_. \<lparr>traitIdentifier = [], traitItem = 0\<rparr>), nextTraitRef = 0,
      containers = (\<lambda>_. emptyContainer n), openedContainer = (\<lambda>_. None),
      sent = [], hookLog = [], nextContainerId = First\<rparr>"

subsection \<open>Example worlds\<close>

definition stackOf :: "string \<Rightarrow> int \<Rightarrow> int \<Rightarrow> bool \<Rightarrow> ItemStack" where
  "stackOf t n m st = \<lparr>item_identifier = t, stackSize = n, maxStackSize = m, isStackable = st,
                        container = None, dynamicProperties = [], traits = [], nbt = []\<rparr>"

text \<open>An item stack created by the caller, at reference \<open>r\<close>.\<close>

definition putItem :: "ItemRef \<Rightarrow> ItemStack \<Rightarrow> World \<Rightarrow> World" where
  "putItem r s w = w\<lparr>items := (items w)(r := s), nextItemRef := max (Suc r) (nextItemRef w)\<rparr>"

text \<open>Player \<open>p\<close> views container \<open>c\<close> under the identifier \<open>i\<close>.\<close>

definition addOccupant :: "ContainerRef \<Rightarrow> PlayerRef \<Rightarrow> int \<Rightarrow> World \<Rightarrow> World" where
  "addOccupant c p i w =
     w\<lparr>containers := (containers w)(c := (containers w c)
          \<lparr>occupants := AList.update p i (occupants (containers w c))\<rparr>),
       openedContainer := (openedContainer w)(p := Some c)\<rparr>"

text \<open>Container 0 has capacity 9; its last slot holds a stack of 5.\<close>

definition world7 :: World where
  "world7 = write_slot 0 (Num 8) (Some 0) (putItem 0 (stackOf ''A'' 5 64 True) (world0 9 1))"

text \<open>A container of capacity 5 with a stack in every slot.\<close>

definition container9 :: Container where
  "container9 = \<lparr>ctype = 0, cidentifier = None,
                  storage = \<lparr>elems = [Some 0, Some 1, Some 2, Some 3, Some 4],
                             props = (\<lambda>_. None)\<rparr>,
                  occupants = []\<rparr>"

subsection \<open>Keys below the length\<close>

text \<open>A key that does not extend the array when written.\<close>

definition inrange :: "nat \<Rightarrow> Key \<Rightarrow> bool" where
  "inrange n k = (case k of NaN \<Rightarrow> True | Num i \<Rightarrow> i < int n)"

subsection \<open>Auxiliary notions for the statements\<close>

text \<open>The single-slot packets \<open>updateSlot\<close> sends: one to each occupant, in order.\<close>

definition slotPackets :: "(PlayerRef \<times> int) list \<Rightarrow> Key \<Rightarrow> NetworkItemStackDescriptor \<Rightarrow> (PlayerRef \<times> Packet) list" where
  "slotPackets occ k d = map (\<lambda>(player, ident). (player, InventorySlotPacket ident k d)) occ"

text \<open>The test of \<open>setItem\<close> for a stack that must not stay in a slot.\<close>

definition cleared :: "World \<Rightarrow> ItemRef \<Rightarrow> bool" where
  "cleared w item \<longleftrightarrow> stackSize (items w item) = 0 \<or> item_identifier (items w item) = Air"

text \<open>Container 0 has capacity 1 and one viewer; stack 0 is empty and in no slot.\<close>

definition world4 :: World where
  "world4 = addOccupant 0 7 1 (putItem 0 (stackOf ''A'' 0 64 True) (world0 1 1))"

text \<open>Container 0 has capacity 1 and one viewer; its slot holds stack 0, of size 10.\<close>

definition world10 :: World where
  "world10 = addOccupant 0 7 1 (write_slot 0 (Num 0) (Some 0) (putItem 0 (stackOf ''A'' 10 64 True) (world0 1 1)))"


text \<open>The container \<open>swapItems\<close> writes to: \<open>otherContainer ?? this\<close>.\<close>

definition target :: "ContainerRef \<Rightarrow> ContainerRef option \<Rightarrow> ContainerRef" where
  "target c otherContainer = (case otherContainer of Some oc \<Rightarrow> oc | None \<Rightarrow> c)"

text \<open>
  Containers 0 and 2 have capacity 3; slot 0 of container 0 holds stack 0 and slot 2 of
  container 2 holds stack 3.
\<close>

definition world8 :: World where
  "world8 = write_slot 2 (Num 2) (Some 3) (write_slot 0 (Num 0) (Some 0)
              (putItem 3 (stackOf ''B'' 1 1 False) (putItem 0 (stackOf ''A'' 5 64 True) (world0 3 1))))"

text \<open>\<open>occupants.has(player)\<close>.\<close>

definition viewing :: "World \<Rightarrow> ContainerRef \<Rightarrow> PlayerRef \<Rightarrow> bool" where
  "viewing w c p \<longleftrightarrow> map_of (occupants (containers w c)) p \<noteq> None"

text \<open>
  The player's reference to the opened container and the occupants of the containers
  agree: the player is an occupant of exactly the container the reference names.
\<close>

definition consistent :: "World \<Rightarrow> PlayerRef \<Rightarrow> bool" where
  "consistent w p \<longleftrightarrow> (\<forall>c. viewing w c p \<longleftrightarrow> openedContainer w p = Some c)"

text \<open>The part of \<open>show\<close> after the old container is closed.\<close>

definition register :: "int \<Rightarrow> int \<Rightarrow> ContainerRef \<Rightarrow> PlayerRef \<Rightarrow> World \<Rightarrow> int \<times> World" where
  "register First Last c player w1 =
     (case getNextContainerId First Last w1 of
        (ident, w2) \<Rightarrow>
          (let w3 = w2\<lparr>containers := (containers w2)(c := (containers w2 c)
                          \<lparr>occupants := AList.update player ident
                                           (occupants (containers w2 c))\<rparr>)\<rparr>;
               w4 = w3\<lparr>openedContainer := (openedContainer w3)(player := Some c)\<rparr>;
               w5 = w4\<lparr>hookLog := hookLog w4 @
                          map (\<lambda>t. OnContainerOpen t player) (storedTraits w4 c)\<rparr>
           in (ident, w5)))"



subsection \<open>Notions for the statements about \<open>addItem\<close>\<close>

text \<open>The quantity held by the slots of the array of a container.\<close>

definition slotQuantity :: "World \<Rightarrow> ItemRef option \<Rightarrow> int" where
  "slotQuantity w x = (case x of None \<Rightarrow> 0 | Some r \<Rightarrow> stackSize (items w r))"

definition totalQuantity :: "World \<Rightarrow> ContainerRef \<Rightarrow> int" where
  "totalQuantity w c = sum_list (map (slotQuantity w) (elems (storage (containers w c))))"

text \<open>Container 0 has capacity 1 and is empty; the caller holds stack 2, which does not stack.\<close>

definition world1 :: World where
  "world1 = putItem 2 (stackOf ''sword'' 1 1 False) (world0 1 1)"


text \<open>One turn of the loop, for a slot to merge into and for a slot to place into.\<close>

definition mergeInto :: "ItemRef \<Rightarrow> ItemRef \<Rightarrow> World \<Rightarrow> World" where
  "mergeInto item existingItem w =
     (let amountToAdd = min (maxStackSize (items w existingItem) - stackSize (items w existingItem))
                            (stackSize (items w item))
      in decrementStack item amountToAdd (incrementStack existingItem amountToAdd w))"

definition placeAt :: "ContainerRef \<Rightarrow> ItemRef \<Rightarrow> nat \<Rightarrow> World \<Rightarrow> World" where
  "placeAt c item emptySlotIndex w =
     (let amountToSet = min (maxStackSize (items w item)) (stackSize (items w item))
      in case new_ItemStack (items w item) amountToSet True w of
           (newItem, w1) \<Rightarrow>
             decrementStack item amountToSet (setItem c (Num (int emptySlotIndex)) newItem w1))"

text \<open>\<open>i\<close> is the lowest index with the property \<open>Q\<close>.\<close>

definition lowest :: "(nat \<Rightarrow> bool) \<Rightarrow> nat \<Rightarrow> bool" where
  "lowest Q i \<longleftrightarrow> Q i \<and> (\<forall>j < i. \<not> Q j)"

text \<open>Slot \<open>i\<close> holds a type-compatible stack that is not full; slot \<open>i\<close> is empty.\<close>

definition mergeableAt :: "World \<Rightarrow> ContainerRef \<Rightarrow> ItemRef \<Rightarrow> nat \<Rightarrow> bool" where
  "mergeableAt w c item i \<longleftrightarrow>
     i < size_of w c \<and> mergeable w item (elems (storage (containers w c)) ! i)"

definition emptyAt :: "World \<Rightarrow> ContainerRef \<Rightarrow> nat \<Rightarrow> bool" where
  "emptyAt w c i \<longleftrightarrow> i < size_of w c \<and> elems (storage (containers w c)) ! i = None"

text \<open>What \<open>addItem\<close> needs of the incoming stack to make progress.\<close>

definition addInv :: "World \<Rightarrow> ContainerRef \<Rightarrow> ItemRef \<Rightarrow> bool" where
  "addInv w c item \<longleftrightarrow>
     item < nextItemRef w \<and> Some item \<notin> set (elems (storage (containers w c)))
   \<and> 0 < maxStackSize (items w item)"

text \<open>Neither a stack to merge into nor an empty slot.\<close>

definition addStuck :: "World \<Rightarrow> ContainerRef \<Rightarrow> ItemRef \<Rightarrow> bool" where
  "addStuck w c item \<longleftrightarrow> (\<forall>i. \<not> mergeableAt w c item i) \<and> (\<forall>i. \<not> emptyAt w c i)"

text \<open>
  No stack object is held by two slots of the container, and every stack held is an
  allocated object.
\<close>

definition storeOK :: "World \<Rightarrow> ContainerRef \<Rightarrow> bool" where
  "storeOK w c \<longleftrightarrow>
     distinct (filter (\<lambda>x. x \<noteq> None) (elems (storage (containers w c))))
   \<and> (\<forall>r. Some r \<in> set (elems (storage (containers w c))) \<longrightarrow> r < nextItemRef w)"

text \<open>
  The invariant of the loop of \<open>addItem\<close> behind the conservation of the quantity: what the
  slots hold and what the caller still holds add up to \<open>q\<close>.
\<close>

definition conserved :: "ContainerRef \<Rightarrow> ItemRef \<Rightarrow> int \<Rightarrow> World \<Rightarrow> bool" where
  "conserved c item q w \<longleftrightarrow>
     storeOK w c \<and> item_identifier (items w item) \<noteq> Air
   \<and> totalQuantity w c + stackSize (items w item) = q"


text \<open>
  Container 0 has capacity 2 and is empty; the caller holds stack 2, which does not stack.
  \<open>afterAdd\<close> is the world after \<open>addItem\<close> of that stack.
\<close>

definition world1b :: World where
  "world1b = putItem 2 (stackOf ''sword'' 1 1 False) (world0 2 1)"

definition afterAdd :: World where
  "afterAdd = snd (the (addItem 0 2 world1b))"

section \<open>Properties\<close>

lemma js_rem_cases:
  assumes "0 < n"
  shows "js_rem (Num i) n = Num (if 0 \<le> i then i mod int n else - ((- i) mod int n))"
  using assms by (simp add: sgn_if)

lemma js_rem_inrange: "inrange n (js_rem k n)"
proof (cases k)
  case NaN
  then show ?thesis by (simp add: inrange_def)
next
  case (Num i)
  show ?thesis
  proof (cases "n = 0")
    case True
    with Num show ?thesis by (simp add: inrange_def)
  next
    case False
    then have n: "0 < n" by simp
    show ?thesis
    proof (cases "0 \<le> i")
      case True
      have "i mod int n < int n" using n by simp
      with True show ?thesis unfolding Num js_rem_cases [OF n] inrange_def by simp
    next
      case False
      have "0 \<le> (- i) mod int n" using n by simp
      then have "- ((- i) mod int n) < int n" using n by linarith
      with False show ?thesis unfolding Num js_rem_cases [OF n] inrange_def by simp
    qed
  qed
qed

lemma js_rem_idem: "js_rem (js_rem k n) n = js_rem k n"
proof (cases k)
  case NaN
  then show ?thesis by simp
next
  case (Num i)
  show ?thesis
  proof (cases "n = 0")
    case True
    with Num show ?thesis by simp
  next
    case False
    then have n: "0 < n" by simp
    show ?thesis
    proof (cases "0 \<le> i")
      case True
      then show ?thesis unfolding Num js_rem_cases [OF n] using n by simp
    next
      case False
      have b: "0 \<le> (- i) mod int n" using n by simp
      show ?thesis
      proof (cases "(- i) mod int n = 0")
        case True
        with False show ?thesis unfolding Num js_rem_cases [OF n] by simp
      next
        case nz: False
        with b have "\<not> 0 \<le> - ((- i) mod int n)" by simp
        with False show ?thesis unfolding Num js_rem_cases [OF n] by simp
      qed
    qed
  qed
qed

lemma length_storage_set: "inrange (length (elems s)) k \<Longrightarrow> length (elems (storage_set s k v)) = length (elems s)"
  by (cases k) (auto simp: inrange_def)

lemma storage_get_set_same: "inrange (length (elems s)) k \<Longrightarrow> storage_get (storage_set s k v) k = v"
  by (cases k) (auto simp: inrange_def)

lemma storage_get_set_other: "inrange (length (elems s)) k \<Longrightarrow> k' \<noteq> k \<Longrightarrow> storage_get (storage_set s k v) k' = storage_get s k'"
  by (cases k; cases k') (auto simp: inrange_def)


lemmas world_simps = world0_def emptyContainer_def stackOf_def putItem_def addOccupant_def
  write_slot_def size_of_def getItem_def

subsection \<open>Reading a slot\<close>

text \<open>
  A non-negative index is resolved modulo the capacity: the key is a slot of the array,
  and \<open>getItem\<close> returns what that slot holds.
\<close>

lemma js_rem_index:
  assumes "0 < n" "0 \<le> i"
  shows "js_rem (Num i) n = Num (i mod int n)"
    and "0 \<le> i mod int n" and "nat (i mod int n) < n"
proof -
  show "js_rem (Num i) n = Num (i mod int n)"
    unfolding js_rem_cases [OF assms(1)] using assms(2) by simp
  show "0 \<le> i mod int n" using assms(1) by simp
  show "nat (i mod int n) < n" using assms(1) by (simp add: nat_less_iff)
qed

lemma getItem_nonneg:
  assumes "0 < size_of w c" "0 \<le> i"
  shows "getItem w c (Num i) = elems (storage (containers w c)) ! nat (i mod int (size_of w c))"
  unfolding getItem_def js_rem_index(1) [OF assms]
  using js_rem_index(2,3) [OF assms] by (simp add: size_of_def)

text \<open>
  C7. The resolution of a negative index misses the range. In a container of capacity 9
  whose slot 8 is occupied, index -1 taken modulo 9 is slot 8; but \<open>slot % this.size\<close> is
  -1, which is no index of the array, and \<open>getItem\<close> returns nothing instead of the stack
  in slot 8. No error is raised.
\<close>

theorem getItem_negative_index:
  "js_rem (Num (- 1)) (size_of world7 0) = Num (- 1)
   \<and> getItem world7 0 (Num (- 1)) = None
   \<and> elems (storage (containers world7 0)) ! nat ((- 1) mod int (size_of world7 0)) = Some 0"
  by (simp add: world7_def world_simps)

subsection \<open>Resizing\<close>

text \<open>
  C9. The setter of \<open>size\<close> fails exactly when the new capacity is negative. Otherwise the
  new array has the new capacity, the slot at each index below both capacities is
  unchanged, every further slot is empty, and the stacks at or beyond the new capacity
  are gone: shrinking yields the prefix of the old array.
\<close>

theorem set_size_frame:
  "((\<exists>e. set_size v c = Inl e) \<longleftrightarrow> v < 0)
   \<and> (0 \<le> v \<longrightarrow> (\<exists>c'. set_size v c = Inr c'
        \<and> length (elems (storage c')) = nat v
        \<and> (\<forall>i < nat v. elems (storage c') ! i =
              (if i < length (elems (storage c)) then elems (storage c) ! i else None))
        \<and> (nat v \<le> length (elems (storage c)) \<longrightarrow>
              elems (storage c') = take (nat v) (elems (storage c)))
        \<and> ctype c' = ctype c \<and> occupants c' = occupants c))"
proof -
  define xs where "xs = elems (storage c)"
  define es where "es = map (\<lambda>i. if i < length (take (nat v) xs) then take (nat v) xs ! i else None)
                            [0 ..< nat v]"
  have len: "length es = nat v" by (simp add: es_def)
  have nth: "es ! i = (if i < length xs then xs ! i else None)" if "i < nat v" for i
    using that by (simp add: es_def)
  have tk: "es = take (nat v) xs" if "nat v \<le> length xs"
    using that by (intro nth_equalityI) (simp_all add: es_def)
  have res: "set_size v c = Inr (c\<lparr>storage := \<lparr>elems = es, props = (\<lambda>_. None)\<rparr>\<rparr>)" if "0 \<le> v"
    using that by (simp add: set_size_def Let_def es_def xs_def)
  have err: "(\<exists>e. set_size v c = Inl e) \<longleftrightarrow> v < 0"
    by (simp add: set_size_def Let_def)
  show ?thesis
  proof (intro conjI impI)
    show "(\<exists>e. set_size v c = Inl e) \<longleftrightarrow> v < 0" by (rule err)
  next
    assume v: "0 \<le> v"
    show "\<exists>c'. set_size v c = Inr c'
        \<and> length (elems (storage c')) = nat v
        \<and> (\<forall>i < nat v. elems (storage c') ! i =
              (if i < length (elems (storage c)) then elems (storage c) ! i else None))
        \<and> (nat v \<le> length (elems (storage c)) \<longrightarrow>
              elems (storage c') = take (nat v) (elems (storage c)))
        \<and> ctype c' = ctype c \<and> occupants c' = occupants c"
      using res [OF v] len nth tk by (simp add: xs_def)
  qed
qed

theorem set_size_frame_witness:
  "(\<exists>c'. set_size 2 container9 = Inr c' \<and> elems (storage c') = [Some 0, Some 1])
   \<and> (\<exists>e. set_size (- 1) container9 = Inl e)"
  using set_size_frame [of 2 container9] set_size_frame [of "- 1" container9]
  by (auto simp: container9_def)

subsection \<open>The allocator of identifiers\<close>

lemma getNextContainerId_bounds:
  assumes "First \<le> Last" "First \<le> nextContainerId w" "nextContainerId w \<le> Last + 1"
  shows "First \<le> fst (getNextContainerId First Last w) \<and> fst (getNextContainerId First Last w) \<le> Last
       \<and> First \<le> nextContainerId (snd (getNextContainerId First Last w))
       \<and> nextContainerId (snd (getNextContainerId First Last w)) \<le> Last + 1"
  using assms by (auto simp: getNextContainerId_def Let_def)

lemma getNextContainerId_wrap:
  assumes "nextContainerId w = Last + 1"
  shows "fst (getNextContainerId First Last w) = First"
    and "nextContainerId (snd (getNextContainerId First Last w)) = First"
  using assms by (auto simp: getNextContainerId_def Let_def)

text \<open>
  From any counter value up to \<open>Last + 1\<close>, the identifiers count up to \<open>Last\<close> and are
  followed by \<open>First\<close> twice.
\<close>

lemma nextIds_until_wrap:
  "nextContainerId w + int k = Last + 1 \<Longrightarrow>
   nextIds First Last (k + 2) w = map (\<lambda>i. nextContainerId w + int i) [0 ..< k] @ [First, First]"
proof (induction k arbitrary: w)
  case 0
  then show ?case
    by (simp add: numeral_2_eq_2 getNextContainerId_def Let_def)
next
  case (Suc k)
  let ?w' = "w\<lparr>nextContainerId := nextContainerId w + 1\<rparr>"
  from Suc.prems have le: "\<not> nextContainerId w > Last" by simp
  then have g: "getNextContainerId First Last w = (nextContainerId w, ?w')"
    by (simp add: getNextContainerId_def Let_def)
  from Suc.prems have "nextContainerId ?w' + int k = Last + 1" by simp
  from Suc.IH [OF this]
  have "nextIds First Last (k + 2) ?w' =
          map (\<lambda>i. nextContainerId w + int (Suc i)) [0 ..< k] @ [First, First]"
    by (simp add: add.assoc add.commute)
  then show ?case
    unfolding map_upt_Suc by (simp add: g)
qed

text \<open>
  C5. Every identifier lies between \<open>First\<close> and \<open>Last\<close> (\<open>getNextContainerId_bounds\<close>),
  but the sequence is not the one claimed: the call after the one that yields \<open>Last\<close>
  yields \<open>First\<close> and leaves the counter at \<open>First\<close>, so the next call yields \<open>First\<close>
  again (\<open>nextIds_until_wrap\<close>). With \<open>First = 1\<close> and \<open>Last = 100\<close>, the calls 101 and
  102 both yield 1.
\<close>

theorem nextIds_First_twice:
  "nextIds 1 100 102 (world0 0 1) = map int [1 ..< 101] @ [1, 1]"
  by code_simp

subsection \<open>Effects of the slot operations on the fields of the world\<close>

lemma updateSlot_fields [simp]:
  "items (updateSlot c k w) = items w"
  "containers (updateSlot c k w) = containers w"
  "size_of (updateSlot c k w) c' = size_of w c'"
  "sent (updateSlot c k w) = sent w @ slotPackets (occupants (containers w c)) k
       (descriptor w (storage_at (storage (containers w c)) k))"
  by (simp_all add: updateSlot_def Let_def size_of_def slotPackets_def)

lemma write_slot_fields [simp]:
  "items (write_slot c k v w) = items w"
  "sent (write_slot c k v w) = sent w"
  "occupants (containers (write_slot c k v w) c') = occupants (containers w c')"
  "storage (containers (write_slot c k v w) c') =
     (if c' = c then storage_set (storage (containers w c)) k v else storage (containers w c'))"
  by (simp_all add: write_slot_def)

lemma size_of_write_slot [simp]:
  "inrange (size_of w c) k \<Longrightarrow> size_of (write_slot c k v w) c' = size_of w c'"
  by (simp add: size_of_def length_storage_set)

lemma clearSlot_fields [simp]:
  "items (clearSlot c k w) = items w"
  "occupants (containers (clearSlot c k w) c') = occupants (containers w c')"
  "storage (containers (clearSlot c k w) c') =
     (if c' = c then storage_set (storage (containers w c)) (js_rem k (size_of w c)) None
      else storage (containers w c'))"
  "size_of (clearSlot c k w) c' = size_of w c'"
  by (simp_all add: clearSlot_def Let_def js_rem_inrange)

lemma descriptor_cong_items: "items w' = items w \<Longrightarrow> descriptor w' x = descriptor w x"
  by (cases x) (simp_all add: descriptor_def)

lemma slotPackets_Nil [simp]: "slotPackets [] k d = []"
  by (simp add: slotPackets_def)

lemma length_slotPackets [simp]: "length (slotPackets occ k d) = length occ"
  by (simp add: slotPackets_def)

lemma sent_clearSlot:
  "sent (clearSlot c k w) = sent w @ slotPackets (occupants (containers w c)) (js_rem k (size_of w c))
       (descriptor w (storage_at (storage_set (storage (containers w c)) (js_rem k (size_of w c)) None)
          (js_rem k (size_of w c))))"
  by (simp add: clearSlot_def Let_def js_rem_inrange descriptor_cong_items [of "write_slot c k' v w" w for k' v])

lemma size_of_upd [simp]:
  "size_of (w\<lparr>items := f\<rparr>) c = size_of w c"
  "size_of (w\<lparr>sent := g\<rparr>) c = size_of w c"
  by (simp_all add: size_of_def)

lemma storage_set_twice:
  "inrange (length (elems s)) k \<Longrightarrow> storage_set (storage_set s k u) k v = storage_set s k v"
  by (cases k) (auto simp: inrange_def)

lemma setItem_unfold:
  "setItem c slot item w =
     updateSlot c (js_rem slot (size_of w c))
       ((if cleared w item
         then clearSlot c (js_rem slot (size_of w c))
                (write_slot c (js_rem slot (size_of w c)) (Some item) w)
         else write_slot c (js_rem slot (size_of w c)) (Some item) w)
        \<lparr>items := (items w)(item := (items w item)\<lparr>container := Some c\<rparr>)\<rparr>)"
  by (simp add: setItem_def Let_def cleared_def)

lemma setItem_storage:
  "storage (containers (setItem c slot item w) c') =
     (if c' = c then
        storage_set (storage (containers w c)) (js_rem slot (size_of w c))
          (if cleared w item then None else Some item)
      else storage (containers w c'))"
proof -
  have r: "inrange (length (elems (storage (containers w c)))) (js_rem slot (size_of w c))"
    using js_rem_inrange [of "size_of w c" slot] by (simp add: size_of_def)
  show ?thesis
    unfolding setItem_unfold
    by (simp add: js_rem_inrange js_rem_idem storage_set_twice [OF r])
qed

lemma setItem_fields [simp]:
  "items (setItem c slot item w) = (items w)(item := (items w item)\<lparr>container := Some c\<rparr>)"
  "occupants (containers (setItem c slot item w) c') = occupants (containers w c')"
  "size_of (setItem c slot item w) c' = size_of w c'"
  unfolding setItem_unfold by (simp_all add: js_rem_inrange)

lemma sent_setItem:
  "\<exists>d. sent (setItem c slot item w) =
         sent w
         @ (if cleared w item
            then slotPackets (occupants (containers w c)) (js_rem slot (size_of w c)) d else [])
         @ slotPackets (occupants (containers w c)) (js_rem slot (size_of w c))
             (descriptor (setItem c slot item w)
                (storage_at (storage (containers (setItem c slot item w) c))
                   (js_rem slot (size_of w c))))"
proof -
  let ?k = "js_rem slot (size_of w c)"
  let ?w1 = "write_slot c ?k (Some item) w"
  let ?W = "if cleared w item then clearSlot c ?k ?w1 else ?w1"
  let ?W' = "?W\<lparr>items := (items w)(item := (items w item)\<lparr>container := Some c\<rparr>)\<rparr>"
  have e: "setItem c slot item w = updateSlot c ?k ?W'" by (rule setItem_unfold)
  have d: "descriptor (setItem c slot item w) x = descriptor ?W' x" for x
    by (rule descriptor_cong_items) (simp add: e)
  have st: "storage (containers (setItem c slot item w) c) = storage (containers ?W' c)"
    by (simp add: e)
  have oc: "occupants (containers ?W' c) = occupants (containers w c)" by simp
  have s1: "sent (setItem c slot item w) = sent ?W' @ slotPackets (occupants (containers w c)) ?k
       (descriptor (setItem c slot item w)
                (storage_at (storage (containers (setItem c slot item w) c)) ?k))"
    unfolding d st unfolding e updateSlot_fields oc ..
  have s2: "\<exists>d. sent ?W' = sent w @ (if cleared w item
            then slotPackets (occupants (containers w c)) ?k d else [])"
    by (auto simp: sent_clearSlot js_rem_inrange js_rem_idem)
  from s1 s2 show ?thesis by auto
qed

subsection \<open>Writing a slot\<close>

lemma storage_at_set_index:
  assumes "0 \<le> j" "nat j < length (elems s)"
  shows "storage_at (storage_set s (Num j) v) (Num j) = v"
  using assms by (simp add: storage_at_def Let_def nat_less_iff)

lemma elems_storage_set_index:
  assumes "0 \<le> j" "nat j < length (elems s)"
  shows "elems (storage_set s (Num j) v) = (elems s)[nat j := v]"
    and "props (storage_set s (Num j) v) = props s"
  using assms by simp_all

lemma descriptor_Some: "descriptor w (Some r) = ToNetworkStack (items w r)"
  by (simp add: descriptor_def)

lemma descriptor_None: "descriptor w None = Descriptor0"
  by (simp add: descriptor_def)

lemma sent_setItem_index:
  assumes n: "0 < size_of w c" and i: "0 \<le> i"
  shows "sent (setItem c (Num i) item w) =
         sent w
         @ (if cleared w item
            then slotPackets (occupants (containers w c)) (Num (i mod int (size_of w c)))
                   Descriptor0
            else [])
         @ slotPackets (occupants (containers w c)) (Num (i mod int (size_of w c)))
             (if cleared w item then Descriptor0
              else ToNetworkStack ((items w item)\<lparr>container := Some c\<rparr>))"
proof -
  let ?s = "storage (containers w c)"
  let ?j = "i mod int (size_of w c)"
  let ?k = "Num ?j"
  let ?occ = "occupants (containers w c)"
  let ?w1 = "write_slot c ?k (Some item) w"
  let ?W = "if cleared w item then clearSlot c ?k ?w1 else ?w1"
  let ?W' = "?W\<lparr>items := (items w)(item := (items w item)\<lparr>container := Some c\<rparr>)\<rparr>"
  have kk: "js_rem (Num i) (size_of w c) = ?k" by (rule js_rem_index(1) [OF n i])
  have j: "0 \<le> ?j" "nat ?j < length (elems ?s)"
    using js_rem_index(2,3) [OF n i] by (simp_all add: size_of_def)
  have kid: "js_rem ?k (size_of w c) = ?k"
    using js_rem_idem [of "Num i" "size_of w c"] unfolding kk .
  have r: "inrange (length (elems ?s)) ?k"
    using js_rem_inrange [of "size_of w c" "Num i"] unfolding kk by (simp only: size_of_def)
  have e: "setItem c (Num i) item w = updateSlot c ?k ?W'"
    unfolding setItem_unfold kk ..
  have st1: "storage (containers ?w1 c) = storage_set ?s ?k (Some item)"
    by (simp del: storage_set.simps)
  have s1: "size_of ?w1 c = size_of w c"
    using length_storage_set [OF r, of "Some item"]
    by (simp add: size_of_def del: storage_set.simps js_rem.simps)
  have stW: "storage (containers ?W' c) =
               storage_set ?s ?k (if cleared w item then None else Some item)"
    using r by (simp add: s1 kid storage_set_twice del: storage_set.simps js_rem.simps)
  have at: "storage_at (storage (containers ?W' c)) ?k =
              (if cleared w item then None else Some item)"
    unfolding stW by (rule storage_at_set_index [OF j])
  have occ: "occupants (containers ?W' c) = ?occ" by simp
  have last: "descriptor ?W' (if cleared w item then None else Some item) =
                (if cleared w item then Descriptor0
                 else ToNetworkStack ((items w item)\<lparr>container := Some c\<rparr>))"
    by (simp add: descriptor_def)
  have sW: "sent ?W' =
              sent w @ (if cleared w item then slotPackets ?occ ?k Descriptor0 else [])"
  proof (cases "cleared w item")
    case False
    then show ?thesis by simp
  next
    case True
    have "storage_at (storage_set (storage (containers ?w1 c)) ?k None) ?k = None"
      unfolding st1 storage_set_twice [OF r] by (rule storage_at_set_index [OF j])
    then have "sent (clearSlot c ?k ?w1) = sent ?w1 @ slotPackets ?occ ?k Descriptor0"
      unfolding sent_clearSlot s1 kid by (simp add: descriptor_None del: storage_set.simps)
    with True show ?thesis by simp
  qed
  have "sent (setItem c (Num i) item w) =
          sent ?W' @ slotPackets ?occ ?k (descriptor ?W' (storage_at (storage (containers ?W' c)) ?k))"
    unfolding e updateSlot_fields occ ..
  then show ?thesis unfolding at last sW by simp
qed

text \<open>
  C4. For a non-negative slot and a positive capacity, \<open>setItem\<close> stores the item at the
  index \<open>slot mod capacity\<close>; if the stack's size is zero or its type is air, that slot is
  cleared instead; no other slot and no other container changes. In both cases the
  back-reference of the item is set to this container. Every occupant is sent one
  single-slot packet for that index with the descriptor of what the slot now holds, and
  one more before it, with the empty descriptor, when the slot was cleared; with no
  occupant nothing is sent.
\<close>

theorem setItem_effects:
  assumes "0 \<le> i" and "0 < size_of w c"
  shows "elems (storage (containers (setItem c (Num i) item w) c)) =
           (elems (storage (containers w c)))[nat (i mod int (size_of w c)) :=
              (if stackSize (items w item) = 0 \<or> item_identifier (items w item) = Air
               then None else Some item)]
       \<and> getItem (setItem c (Num i) item w) c (Num i) =
           (if stackSize (items w item) = 0 \<or> item_identifier (items w item) = Air
            then None else Some item)
       \<and> props (storage (containers (setItem c (Num i) item w) c)) =
           props (storage (containers w c))
       \<and> (\<forall>c'. c' \<noteq> c \<longrightarrow> storage (containers (setItem c (Num i) item w) c') =
                              storage (containers w c'))
       \<and> items (setItem c (Num i) item w) =
           (items w)(item := (items w item)\<lparr>container := Some c\<rparr>)
       \<and> sent (setItem c (Num i) item w) =
           sent w
           @ (if stackSize (items w item) = 0 \<or> item_identifier (items w item) = Air
              then slotPackets (occupants (containers w c)) (Num (i mod int (size_of w c)))
                     Descriptor0
              else [])
           @ slotPackets (occupants (containers w c)) (Num (i mod int (size_of w c)))
               (if stackSize (items w item) = 0 \<or> item_identifier (items w item) = Air
                then Descriptor0
                else ToNetworkStack ((items w item)\<lparr>container := Some c\<rparr>))"
proof (intro conjI allI impI)
  let ?s = "storage (containers w c)"
  let ?j = "i mod int (size_of w c)"
  let ?v = "if stackSize (items w item) = 0 \<or> item_identifier (items w item) = Air
            then None else Some item"
  have kk: "js_rem (Num i) (size_of w c) = Num ?j" by (rule js_rem_index(1) [OF assms(2,1)])
  have j: "0 \<le> ?j" "nat ?j < length (elems ?s)"
    using js_rem_index(2,3) [OF assms(2,1)] by (simp_all add: size_of_def)
  have st: "storage (containers (setItem c (Num i) item w) c) = storage_set ?s (Num ?j) ?v"
    unfolding setItem_storage kk by (simp add: cleared_def del: storage_set.simps)
  show "elems (storage (containers (setItem c (Num i) item w) c)) = (elems ?s)[nat ?j := ?v]"
    unfolding st by (rule elems_storage_set_index(1) [OF j])
  show "props (storage (containers (setItem c (Num i) item w) c)) = props ?s"
    unfolding st by (rule elems_storage_set_index(2) [OF j])
  have "inrange (length (elems ?s)) (Num ?j)"
    using js_rem_inrange [of "size_of w c" "Num i"] unfolding kk by (simp only: size_of_def)
  then have "storage_get (storage_set ?s (Num ?j) ?v) (Num ?j) = ?v"
    by (rule storage_get_set_same)
  then show "getItem (setItem c (Num i) item w) c (Num i) = ?v"
    unfolding getItem_def setItem_fields kk st .
  show "storage (containers (setItem c (Num i) item w) c') = storage (containers w c')"
    if "c' \<noteq> c" for c'
    using that by (simp add: setItem_storage)
  show "items (setItem c (Num i) item w) =
          (items w)(item := (items w item)\<lparr>container := Some c\<rparr>)"
    by simp
  show "sent (setItem c (Num i) item w) =
           sent w
           @ (if stackSize (items w item) = 0 \<or> item_identifier (items w item) = Air
              then slotPackets (occupants (containers w c)) (Num ?j) Descriptor0
              else [])
           @ slotPackets (occupants (containers w c)) (Num ?j)
               (if stackSize (items w item) = 0 \<or> item_identifier (items w item) = Air
                then Descriptor0
                else ToNetworkStack ((items w item)\<lparr>container := Some c\<rparr>))"
    using sent_setItem_index [OF assms(2,1), of item] unfolding cleared_def .
qed

theorem setItem_effects_witness:
  "(0::int) \<le> 10 \<and> 0 < size_of world10 0
   \<and> elems (storage (containers (setItem 0 (Num 10) 0 world10) 0)) = [Some 0]
   \<and> container (items (setItem 0 (Num 10) 0 world10) 0) = Some 0
   \<and> sent (setItem 0 (Num 10) 0 world10) =
       [(7, InventorySlotPacket 1 (Num 0)
              (ToNetworkStack ((stackOf ''A'' 10 64 True)\<lparr>container := Some 0\<rparr>)))]"
proof -
  have n: "0 < size_of world10 0" by (simp add: world10_def world_simps)
  have i: "(0::int) \<le> 10" by simp
  have v: "items world10 0 = stackOf ''A'' 10 64 True"
    "elems (storage (containers world10 0)) = [Some 0]"
    "occupants (containers world10 0) = [(7, 1)]" "sent world10 = []" "size_of world10 0 = 1"
    by (simp_all add: world10_def world_simps)
  from setItem_effects [OF i n, of 0] n show ?thesis
    by (simp add: v stackOf_def Air_def slotPackets_def)
qed

text \<open>
  A stack of size zero set into a container with one viewer: the slot is cleared, the
  back-reference is set all the same, and the viewer receives two packets.
\<close>

theorem setItem_cleared_counterexample:
  "getItem (setItem 0 (Num 0) 0 world4) 0 (Num 0) = None
   \<and> container (items (setItem 0 (Num 0) 0 world4) 0) = Some 0
   \<and> sent (setItem 0 (Num 0) 0 world4) =
       [(7, InventorySlotPacket 1 (Num 0) Descriptor0), (7, InventorySlotPacket 1 (Num 0) Descriptor0)]"
  by (simp add: world4_def world_simps setItem_def clearSlot_def updateSlot_def Let_def
      storage_at_def descriptor_def)

subsection \<open>Removing from a slot\<close>





subsection \<open>Swapping\<close>

lemma cleared_upd [simp]:
  "cleared (w\<lparr>items := (items w)(i := (items w i)\<lparr>container := v\<rparr>)\<rparr>) j = cleared w j"
  by (simp add: cleared_def)

lemma cleared_cong: "items w' = items w \<Longrightarrow> cleared w' j = cleared w j"
  by (simp add: cleared_def)

lemma cleared_clearSlot [simp]: "cleared (clearSlot c k w) j = cleared w j"
  by (rule cleared_cong) simp

lemma cleared_setItem [simp]: "cleared (setItem c k i w) j = cleared w j"
  by (simp add: cleared_def)

lemma storage_get_setItem:
  "storage_get (storage (containers (setItem c slot item w) c')) k =
     (if c' = c \<and> k = js_rem slot (size_of w c)
      then (if cleared w item then None else Some item)
      else storage_get (storage (containers w c')) k)"
  using js_rem_inrange [of "size_of w c" slot]
  by (simp add: setItem_storage storage_get_set_same storage_get_set_other size_of_def)

lemma storage_get_clearSlot:
  "storage_get (storage (containers (clearSlot c slot w) c')) k =
     (if c' = c \<and> k = js_rem slot (size_of w c) then None
      else storage_get (storage (containers w c')) k)"
  using js_rem_inrange [of "size_of w c" slot]
  by (simp add: storage_get_set_same storage_get_set_other size_of_def)

lemma inrange_size [simp]:
  "inrange (length (elems (storage (containers w c)))) (js_rem k (size_of w c))"
  using js_rem_inrange [of "size_of w c" k] by (simp add: size_of_def)

lemma storage_get_set:
  "inrange (length (elems s)) k \<Longrightarrow>
   storage_get (storage_set s k v) k' = (if k' = k then v else storage_get s k')"
  by (simp add: storage_get_set_same storage_get_set_other)

lemma swapItems_unfold:
  "swapItems c slot otherSlot oc w =
    (let t = target c oc;
         k1 = js_rem slot (size_of w c);
         k2 = js_rem otherSlot (size_of w t);
         x = storage_get (storage (containers w c)) k1;
         y = storage_get (storage (containers w t)) k2;
         w2 = clearSlot t k2 (clearSlot c k1 w);
         w3 = (case x of Some i \<Rightarrow> setItem t k2 i w2 | None \<Rightarrow> w2)
     in (case y of Some i \<Rightarrow> setItem c k1 i w3 | None \<Rightarrow> w3))"
  by (cases oc) (simp_all add: swapItems_def Let_def target_def getItem_def js_rem_idem
      split: option.splits)

lemma size_of_swapItems [simp]: "size_of (swapItems c slot otherSlot oc w) c' = size_of w c'"
  by (simp add: swapItems_unfold Let_def split: option.splits)

lemma cleared_swapItems [simp]: "cleared (swapItems c slot otherSlot oc w) j = cleared w j"
  by (simp add: swapItems_unfold Let_def split: option.splits)

lemma storage_get_swapItems:
  assumes "\<forall>i. getItem w c slot = Some i \<longrightarrow> \<not> cleared w i"
      and "\<forall>i. getItem w (target c oc) otherSlot = Some i \<longrightarrow> \<not> cleared w i"
  shows "storage_get (storage (containers (swapItems c slot otherSlot oc w) c')) k =
     (if c' = target c oc \<and> k = js_rem otherSlot (size_of w (target c oc))
      then storage_get (storage (containers w c)) (js_rem slot (size_of w c))
      else if c' = c \<and> k = js_rem slot (size_of w c)
      then storage_get (storage (containers w (target c oc)))
             (js_rem otherSlot (size_of w (target c oc)))
      else storage_get (storage (containers w c')) k)"
  using assms unfolding getItem_def swapItems_unfold Let_def
  by (auto simp: storage_get_setItem storage_get_set length_storage_set js_rem_idem
      split: option.splits)


text \<open>
  C8. Let the stacks held by the two slots, if any, be of non-zero size and not air.
  Then \<open>swapItems\<close> moves each stack to the other slot's resolved position, in one
  container or across two, and the same swap performed again restores the contents: every
  key of every container reads as before, and the arrays are equal. A stack of size zero
  or of type air is not written back by \<open>setItem\<close> and is lost by the first swap.
\<close>

theorem swapItems_involution:
  assumes "\<forall>i. getItem w c slot = Some i \<longrightarrow> \<not> cleared w i"
      and "\<forall>i. getItem w (target c oc) otherSlot = Some i \<longrightarrow> \<not> cleared w i"
  shows "getItem (swapItems c slot otherSlot oc w) c slot = getItem w (target c oc) otherSlot
       \<and> getItem (swapItems c slot otherSlot oc w) (target c oc) otherSlot = getItem w c slot
       \<and> (\<forall>c' k. storage_get (storage (containers
                     (swapItems c slot otherSlot oc (swapItems c slot otherSlot oc w)) c')) k =
                   storage_get (storage (containers w c')) k)
       \<and> (\<forall>c'. elems (storage (containers
                     (swapItems c slot otherSlot oc (swapItems c slot otherSlot oc w)) c')) =
                 elems (storage (containers w c')))"
proof -
  let ?t = "target c oc"
  let ?w1 = "swapItems c slot otherSlot oc w"
  let ?w2 = "swapItems c slot otherSlot oc ?w1"
  let ?k1 = "js_rem slot (size_of w c)"
  let ?k2 = "js_rem otherSlot (size_of w ?t)"
  note g1 = storage_get_swapItems [OF assms]
  have a: "getItem ?w1 c slot = getItem w ?t otherSlot"
    unfolding getItem_def by (simp add: g1)
  have b: "getItem ?w1 ?t otherSlot = getItem w c slot"
    unfolding getItem_def by (simp add: g1)
  have h1: "\<forall>i. getItem ?w1 c slot = Some i \<longrightarrow> \<not> cleared ?w1 i"
    using assms(2) by (simp add: a)
  have h2: "\<forall>i. getItem ?w1 ?t otherSlot = Some i \<longrightarrow> \<not> cleared ?w1 i"
    using assms(1) by (simp add: b)
  note g2 = storage_get_swapItems [OF h1 h2]
  have c: "storage_get (storage (containers ?w2 c')) k = storage_get (storage (containers w c')) k"
    for c' k
    by (simp add: g2) (auto simp: g1)
  have d: "elems (storage (containers ?w2 c')) = elems (storage (containers w c'))" for c'
  proof (rule nth_equalityI)
    have "size_of ?w2 c' = size_of w c'" by simp
    then show l: "length (elems (storage (containers ?w2 c'))) = length (elems (storage (containers w c')))"
      by (simp add: size_of_def)
    fix i assume i: "i < length (elems (storage (containers ?w2 c')))"
    from c [of c' "Num (int i)"] i l
    show "elems (storage (containers ?w2 c')) ! i = elems (storage (containers w c')) ! i"
      by simp
  qed
  from a b c d show ?thesis by blast
qed

theorem swapItems_involution_witness:
  "getItem world8 0 (Num 0) = Some 0 \<and> getItem world8 2 (Num 5) = Some 3
   \<and> getItem (swapItems 0 (Num 0) (Num 5) (Some 2) world8) 0 (Num 0) = Some 3
   \<and> getItem (swapItems 0 (Num 0) (Num 5) (Some 2) world8) 2 (Num 5) = Some 0
   \<and> elems (storage (containers
         (swapItems 0 (Num 0) (Num 5) (Some 2) (swapItems 0 (Num 0) (Num 5) (Some 2) world8)) 0))
       = [Some 0, None, None]"
proof -
  have t: "target 0 (Some 2) = 2" by (simp add: target_def)
  have v1: "getItem world8 0 (Num 0) = Some 0" by (simp add: world8_def world_simps)
  have v2: "getItem world8 2 (Num 5) = Some 3" by (simp add: world8_def world_simps)
  have c: "\<not> cleared world8 0" "\<not> cleared world8 3"
    by (simp_all add: world8_def world_simps cleared_def Air_def)
  have e: "elems (storage (containers world8 0)) = [Some 0, None, None]"
    by (simp add: world8_def world_simps numeral_3_eq_3)
  have h1: "\<forall>i. getItem world8 0 (Num 0) = Some i \<longrightarrow> \<not> cleared world8 i"
    using c by (simp add: v1)
  have h2: "\<forall>i. getItem world8 (target 0 (Some 2)) (Num 5) = Some i \<longrightarrow> \<not> cleared world8 i"
    using c by (simp add: v2 t)
  from swapItems_involution [OF h1 h2] show ?thesis
    by (simp add: t v1 v2 e)
qed

subsection \<open>Showing and closing\<close>

lemma getNextContainerId_fields [simp]:
  "containers (snd (getNextContainerId First Last w)) = containers w"
  "openedContainer (snd (getNextContainerId First Last w)) = openedContainer w"
  "sent (snd (getNextContainerId First Last w)) = sent w"
  by (simp_all add: getNextContainerId_def Let_def)

lemma close_ok:
  assumes "map_of (occupants (containers w x)) p = Some ident"
  shows "\<exists>w1. close x p b w = Inr w1
           \<and> sent w1 = sent w @ [(p, ContainerClosePacket ident (ctype (containers w x)) b)]
           \<and> openedContainer w1 = (openedContainer w)(p := None)
           \<and> (\<forall>c q. viewing w1 c q \<longleftrightarrow> viewing w c q \<and> \<not> (c = x \<and> q = p))"
  using assms by (auto simp: close_def Let_def viewing_def delete_conv')

lemma close_fails: "map_of (occupants (containers w x)) p = None \<Longrightarrow> close x p b w = Inl NotViewing"
  by (simp add: close_def)

lemma show_closed:
  assumes "openedContainer w p = None"
  shows "showContainer First Last c p w = Inr (register First Last c p w)"
  using assms by (simp add: showContainer_def register_def Let_def split: prod.splits)

lemma show_open:
  assumes "openedContainer w p = Some x" "close x p True w = Inr w1"
  shows "showContainer First Last c p w = Inr (register First Last c p w1)"
  using assms by (simp add: showContainer_def register_def Let_def split: prod.splits)

lemma register_fields:
  "openedContainer (snd (register First Last c p w)) = (openedContainer w)(p := Some c)"
  "viewing (snd (register First Last c p w)) c' q \<longleftrightarrow> viewing w c' q \<or> (c' = c \<and> q = p)"
  "sent (snd (register First Last c p w)) = sent w"
  by (auto simp: register_def Let_def viewing_def update_conv' case_prod_beta)


lemma show_step:
  assumes "consistent w p"
  shows "\<exists>ident w'. showContainer First Last c p w = Inr (ident, w')
           \<and> consistent w' p \<and> openedContainer w' p = Some c"
proof (cases "openedContainer w p")
  case None
  with assms have nv: "\<not> viewing w c' p" for c' by (simp add: consistent_def)
  have "consistent (snd (register First Last c p w)) p"
    using nv by (auto simp: consistent_def register_fields)
  moreover have "openedContainer (snd (register First Last c p w)) p = Some c"
    by (simp add: register_fields)
  ultimately show ?thesis
    unfolding show_closed [OF None] by (cases "register First Last c p w") auto
next
  case (Some x)
  with assms have v: "viewing w c' p \<longleftrightarrow> c' = x" for c' by (auto simp: consistent_def)
  from v [of x] obtain ident where i: "map_of (occupants (containers w x)) p = Some ident"
    by (auto simp: viewing_def)
  from close_ok [OF i, of True] obtain w1 where
    c: "close x p True w = Inr w1" and
    nv: "\<forall>c q. viewing w1 c q \<longleftrightarrow> viewing w c q \<and> \<not> (c = x \<and> q = p)"
    by blast
  from nv v have nv': "\<not> viewing w1 c' p" for c' by simp
  have "consistent (snd (register First Last c p w1)) p"
    using nv' by (auto simp: consistent_def register_fields)
  moreover have "openedContainer (snd (register First Last c p w1)) p = Some c"
    by (simp add: register_fields)
  ultimately show ?thesis
    unfolding show_open [OF Some c] by (cases "register First Last c p w1") auto
qed

lemma showAll_consistent:
  assumes "consistent w p"
  shows "\<exists>w'. showAll First Last cs p w = Inr w' \<and> consistent w' p
           \<and> (cs \<noteq> [] \<longrightarrow> openedContainer w' p = Some (last cs))"
  using assms
proof (induction cs arbitrary: w)
  case Nil
  then show ?case by simp
next
  case (Cons c cs)
  from show_step [OF Cons.prems, of First Last c] obtain ident w1 where
    s: "showContainer First Last c p w = Inr (ident, w1)" and
    c1: "consistent w1 p" and o1: "openedContainer w1 p = Some c"
    by blast
  from Cons.IH [OF c1] obtain w' where
    r: "showAll First Last cs p w1 = Inr w'" and c': "consistent w' p" and
    l: "cs \<noteq> [] \<longrightarrow> openedContainer w' p = Some (last cs)"
    by blast
  show ?case
  proof (cases "cs = []")
    case True
    with s r o1 c1 show ?thesis by simp
  next
    case False
    with s r c' l show ?thesis by simp
  qed
qed

text \<open>
  C6. Start from a world where the player's opened container and the occupants agree, as
  in every world reached by \<open>show\<close> and \<open>close\<close> from one with nothing open. After any
  non-empty sequence of \<open>show\<close> calls by the player, no call has failed, the opened
  container is the last one shown and the player is an occupant of that container and of
  no other. If a container was open before a call, \<open>show\<close> first closes it for the player
  (a server-initiated close packet with the player's identifier, the occupant entry
  removed, the reference reset) and then proceeds as \<open>show\<close> does from the closed world.
\<close>

theorem show_single_open:
  assumes "consistent w p"
  shows "(cs \<noteq> [] \<longrightarrow>
           (\<exists>w'. showAll First Last cs p w = Inr w'
              \<and> openedContainer w' p = Some (last cs)
              \<and> (\<forall>c. viewing w' c p \<longleftrightarrow> c = last cs)))
       \<and> (\<forall>x. openedContainer w p = Some x \<longrightarrow>
            (\<exists>w1 ident. close x p True w = Inr w1
               \<and> map_of (occupants (containers w x)) p = Some ident
               \<and> sent w1 = sent w @ [(p, ContainerClosePacket ident (ctype (containers w x)) True)]
               \<and> \<not> viewing w1 x p \<and> openedContainer w1 p = None
               \<and> showContainer First Last c p w = showContainer First Last c p w1))"
proof (intro conjI impI allI)
  assume "cs \<noteq> []"
  with showAll_consistent [OF assms, of First Last cs] obtain w' where
    r: "showAll First Last cs p w = Inr w'" and c: "consistent w' p" and
    l: "openedContainer w' p = Some (last cs)"
    by blast
  from c l have "\<forall>c. viewing w' c p \<longleftrightarrow> c = last cs" by (auto simp: consistent_def)
  with r l show "\<exists>w'. showAll First Last cs p w = Inr w'
              \<and> openedContainer w' p = Some (last cs)
              \<and> (\<forall>c. viewing w' c p \<longleftrightarrow> c = last cs)"
    by blast
next
  fix x assume o: "openedContainer w p = Some x"
  with assms have "viewing w x p" by (simp add: consistent_def)
  then obtain ident where i: "map_of (occupants (containers w x)) p = Some ident"
    by (auto simp: viewing_def)
  from close_ok [OF i, of True] obtain w1 where
    c: "close x p True w = Inr w1" and
    s: "sent w1 = sent w @ [(p, ContainerClosePacket ident (ctype (containers w x)) True)]" and
    op: "openedContainer w1 = (openedContainer w)(p := None)" and
    nv: "\<forall>c q. viewing w1 c q \<longleftrightarrow> viewing w c q \<and> \<not> (c = x \<and> q = p)"
    by blast
  from op have o1: "openedContainer w1 p = None" by simp
  have "showContainer First Last c p w = showContainer First Last c p w1"
    unfolding show_open [OF o c] show_closed [OF o1] ..
  with c i s nv o1
  show "\<exists>w1 ident. close x p True w = Inr w1
               \<and> map_of (occupants (containers w x)) p = Some ident
               \<and> sent w1 = sent w @ [(p, ContainerClosePacket ident (ctype (containers w x)) True)]
               \<and> \<not> viewing w1 x p \<and> openedContainer w1 p = None
               \<and> showContainer First Last c p w = showContainer First Last c p w1"
    by blast
qed



theorem show_single_open_witness:
  "consistent world10 7 \<and> openedContainer world10 7 = Some 0
   \<and> (\<exists>w'. showAll 1 100 [2, 0, 3] 7 world10 = Inr w'
         \<and> openedContainer w' 7 = Some 3 \<and> viewing w' 3 7 \<and> \<not> viewing w' 0 7 \<and> \<not> viewing w' 2 7)
   \<and> (\<exists>w1. close 0 7 True world10 = Inr w1
         \<and> sent w1 = [(7, ContainerClosePacket 1 0 True)]
         \<and> showContainer 1 100 2 7 world10 = showContainer 1 100 2 7 w1)"
proof -
  have o: "openedContainer world10 7 = Some 0"
    by (simp add: world10_def world_simps)
  have m: "map_of (occupants (containers world10 c)) 7 = (if c = 0 then Some 1 else None)" for c
    by (simp add: world10_def world_simps)
  have t: "ctype (containers world10 0) = 0" "sent world10 = []"
    by (simp_all add: world10_def world_simps)
  have c: "consistent world10 7"
    unfolding consistent_def viewing_def m o by auto
  note th = show_single_open [OF c, of "[2, 0, 3]" 1 100 2]
  from th obtain w' where
    a: "showAll 1 100 [2, 0, 3] 7 world10 = Inr w'" "openedContainer w' 7 = Some 3"
       "\<forall>c. viewing w' c 7 \<longleftrightarrow> c = 3"
    by auto
  from th o obtain w1 ident where
    b: "close 0 7 True world10 = Inr w1" "map_of (occupants (containers world10 0)) 7 = Some ident"
       "sent w1 = sent world10 @ [(7, ContainerClosePacket ident (ctype (containers world10 0)) True)]"
       "showContainer 1 100 2 7 world10 = showContainer 1 100 2 7 w1"
    by blast
  from b(2) have i: "ident = 1" by (simp add: m)
  from a have a': "\<exists>w'. showAll 1 100 [2, 0, 3] 7 world10 = Inr w'
         \<and> openedContainer w' 7 = Some 3 \<and> viewing w' 3 7 \<and> \<not> viewing w' 0 7 \<and> \<not> viewing w' 2 7"
    by simp
  from b i have b': "\<exists>w1. close 0 7 True world10 = Inr w1
         \<and> sent w1 = [(7, ContainerClosePacket 1 0 True)]
         \<and> showContainer 1 100 2 7 world10 = showContainer 1 100 2 7 w1"
    by (simp add: t)
  from c o a' b' show ?thesis by (intro conjI)
qed

subsection \<open>Taking from a slot\<close>








lemma updateSlot_heap [simp]:
  "nextItemRef (updateSlot c k w) = nextItemRef w"
  "nextTraitRef (updateSlot c k w) = nextTraitRef w"
  "traitHeap (updateSlot c k w) = traitHeap w"
  by (simp_all add: updateSlot_def Let_def)

lemma clearSlot_heap [simp]:
  "nextItemRef (clearSlot c k w) = nextItemRef w"
  "nextTraitRef (clearSlot c k w) = nextTraitRef w"
  "traitHeap (clearSlot c k w) = traitHeap w"
  by (simp_all add: clearSlot_def Let_def write_slot_def)

lemma new_ItemStack_fst [simp]: "fst (new_ItemStack s n b w) = nextItemRef w"
  by (simp add: new_ItemStack_def Let_def)

lemma decrementStack_heap [simp]:
  "nextItemRef (decrementStack i n w) = nextItemRef w"
  "nextTraitRef (decrementStack i n w) = nextTraitRef w"
  "traitHeap (decrementStack i n w) = traitHeap w"
  "containers (decrementStack i n w) = containers w"
  "sent (decrementStack i n w) = sent w"
  "size_of (decrementStack i n w) c = size_of w c"
  by (simp_all add: decrementStack_def setStackSize_def size_of_def)








subsection \<open>Adding a stack\<close>

lemmas add_simps = addItem_def indexOf_null_def setItem_def clearSlot_def updateSlot_def
  setStackSize_def incrementStack_def decrementStack_def new_ItemStack_def mergeable_def
  equals_def Let_def storage_at_def descriptor_def Air_def

lemma findIndex_Some_iff:
  "findIndex P xs = Some i \<longleftrightarrow> i < length xs \<and> P (xs ! i) \<and> (\<forall>j < i. \<not> P (xs ! j))"
proof (induction xs arbitrary: i)
  case Nil
  show ?case by simp
next
  case (Cons x xs)
  show ?case
  proof (cases "P x")
    case True
    then show ?thesis by (cases i) auto
  next
    case False
    show ?thesis
    proof (cases i)
      case 0
      with False show ?thesis by simp
    next
      case (Suc k)
      have "(\<forall>j < Suc k. \<not> P ((x # xs) ! j)) \<longleftrightarrow> (\<forall>j < k. \<not> P (xs ! j))"
        using False by (auto simp: less_Suc_eq_0_disj)
      with False Suc Cons.IH [of k] show ?thesis by auto
    qed
  qed
qed

lemma findIndex_None_iff:
  "findIndex P xs = None \<longleftrightarrow> (\<forall>j < length xs. \<not> P (xs ! j))"
  by (induction xs) (auto simp: less_Suc_eq_0_disj)

lemma findIndex_mergeable:
  "findIndex (mergeable w item) (elems (storage (containers w c))) = Some i
     \<longleftrightarrow> lowest (mergeableAt w c item) i"
  unfolding findIndex_Some_iff lowest_def mergeableAt_def size_of_def by auto

lemma findIndex_mergeable_None:
  "findIndex (mergeable w item) (elems (storage (containers w c))) = None
     \<longleftrightarrow> (\<forall>i. \<not> mergeableAt w c item i)"
  unfolding findIndex_None_iff mergeableAt_def size_of_def by auto

lemma indexOf_null_Some:
  "indexOf_null (elems (storage (containers w c))) = Some i \<longleftrightarrow> lowest (emptyAt w c) i"
  unfolding indexOf_null_def findIndex_Some_iff lowest_def emptyAt_def size_of_def by auto

lemma indexOf_null_None:
  "indexOf_null (elems (storage (containers w c))) = None \<longleftrightarrow> (\<forall>i. \<not> emptyAt w c i)"
  unfolding indexOf_null_def findIndex_None_iff emptyAt_def size_of_def by auto

lemma addLoop_done:
  "stackSize (items w item) \<le> 0 \<Longrightarrow> addLoop c item w = Some w"
  by (subst addLoop.simps) simp

lemma addLoop_merge:
  assumes "0 < stackSize (items w item)" "lowest (mergeableAt w c item) i"
    "elems (storage (containers w c)) ! i = Some r"
  shows "addLoop c item w = addLoop c item (mergeInto item r w)"
  using assms(1,3) assms(2) [folded findIndex_mergeable]
  by (subst addLoop.simps) (simp add: mergeInto_def Let_def)

lemma addLoop_place:
  assumes "0 < stackSize (items w item)" "\<forall>i. \<not> mergeableAt w c item i"
    "lowest (emptyAt w c) j"
  shows "addLoop c item w = addLoop c item (placeAt c item j w)"
  using assms(1) assms(2) [folded findIndex_mergeable_None] assms(3) [folded indexOf_null_Some]
  by (subst addLoop.simps) (simp add: placeAt_def Let_def case_prod_beta)

lemma addLoop_full:
  assumes "0 < stackSize (items w item)" "\<forall>i. \<not> mergeableAt w c item i"
    "\<forall>i. \<not> emptyAt w c i"
  shows "addLoop c item w = Some w"
  using assms(1) assms(2) [folded findIndex_mergeable_None] assms(3) [folded indexOf_null_None]
  by (subst addLoop.simps) simp


lemma mergeInto_fields:
  assumes "r \<noteq> item"
  shows "stackSize (items (mergeInto item r w) item) =
           stackSize (items w item) -
             min (maxStackSize (items w r) - stackSize (items w r)) (stackSize (items w item))"
    and "maxStackSize (items (mergeInto item r w) item) = maxStackSize (items w item)"
    and "containers (mergeInto item r w) = containers w"
    and "nextItemRef (mergeInto item r w) = nextItemRef w"
    and "isStackable (items (mergeInto item r w) item) = isStackable (items w item)"
    and "stackSize (items (mergeInto item r w) r) =
           stackSize (items w r) +
             min (maxStackSize (items w r) - stackSize (items w r)) (stackSize (items w item))"
  using assms
  by (simp_all add: mergeInto_def Let_def decrementStack_def incrementStack_def setStackSize_def)

lemma setItem_heap [simp]:
  "nextItemRef (setItem c k i w) = nextItemRef w"
  "nextTraitRef (setItem c k i w) = nextTraitRef w"
  "traitHeap (setItem c k i w) = traitHeap w"
  unfolding setItem_unfold by (simp_all add: write_slot_def)

lemma placeAt_fields:
  assumes "item < nextItemRef w"
  shows "stackSize (items (placeAt c item j w) item) =
           stackSize (items w item) - min (maxStackSize (items w item)) (stackSize (items w item))"
    and "maxStackSize (items (placeAt c item j w) item) = maxStackSize (items w item)"
    and "nextItemRef (placeAt c item j w) = Suc (nextItemRef w)"
    and "storage (containers (placeAt c item j w) c) =
           storage_set (storage (containers w c)) (js_rem (Num (int j)) (size_of w c))
             (if min (maxStackSize (items w item)) (stackSize (items w item)) = 0
                 \<or> item_identifier (items w item) = Air
              then None else Some (nextItemRef w))"
    and "isStackable (items (placeAt c item j w) item) = isStackable (items w item)"
    and "items (placeAt c item j w) (nextItemRef w) =
           (items w item)\<lparr>stackSize := min (maxStackSize (items w item)) (stackSize (items w item)),
                           container := Some c, traits := []\<rparr>"
  using assms
  by (simp_all add: placeAt_def Let_def new_ItemStack_def decrementStack_def setStackSize_def
      setItem_storage cleared_def size_of_def)


lemma size_of_nextItemRef [simp]: "size_of (w\<lparr>nextItemRef := n\<rparr>) c = size_of w c"
  by (simp add: size_of_def)


lemma lowest_ex: "\<exists>i. Q i \<Longrightarrow> \<exists>i. lowest Q i"
  unfolding lowest_def by (subst (asm) exists_least_iff) simp

lemma set_storage_set:
  "inrange (length (elems s)) k \<Longrightarrow> set (elems (storage_set s k v)) \<subseteq> insert v (set (elems s))"
  by (cases k) (auto simp: inrange_def dest: set_update_subset_insert [THEN subsetD])

lemma addLoop_invariant:
  assumes "addInv w c item" and "J w"
    and merge: "\<And>w i r. addInv w c item \<Longrightarrow> J w \<Longrightarrow> 0 < stackSize (items w item) \<Longrightarrow>
           lowest (mergeableAt w c item) i \<Longrightarrow> elems (storage (containers w c)) ! i = Some r \<Longrightarrow>
           r \<noteq> item \<Longrightarrow> J (mergeInto item r w)"
    and place: "\<And>w j. addInv w c item \<Longrightarrow> J w \<Longrightarrow> 0 < stackSize (items w item) \<Longrightarrow>
           \<forall>i. \<not> mergeableAt w c item i \<Longrightarrow> lowest (emptyAt w c) j \<Longrightarrow>
           J (placeAt c item j w)"
  shows "\<exists>w'. addLoop c item w = Some w' \<and> J w'
           \<and> (stackSize (items w' item) \<le> 0 \<or> addStuck w' c item)
           \<and> (0 \<le> stackSize (items w item) \<longrightarrow> 0 \<le> stackSize (items w' item))"
  using assms(1,2)
proof (induction "nat (stackSize (items w item))" arbitrary: w rule: less_induct)
  case less
  note Jw = less.prems(2)
  let ?rem = "stackSize (items w item)"
  from less.prems(1) have al: "item < nextItemRef w"
    and ni: "Some item \<notin> set (elems (storage (containers w c)))"
    and mx: "0 < maxStackSize (items w item)"
    by (simp_all add: addInv_def)
  show ?case
  proof (cases "0 < ?rem")
    case False
    with Jw show ?thesis by (simp add: addLoop_done)
  next
    case pos: True
    show ?thesis
    proof (cases "\<exists>i. mergeableAt w c item i")
      case True
      then obtain i where lo: "lowest (mergeableAt w c item) i" using lowest_ex by blast
      then have m: "mergeableAt w c item i" by (simp add: lowest_def)
      then obtain r where r: "elems (storage (containers w c)) ! i = Some r"
        and sp: "stackSize (items w r) < maxStackSize (items w r)"
        by (auto simp: mergeableAt_def mergeable_def split: option.splits)
      from m r ni have ne: "r \<noteq> item"
        by (auto simp: mergeableAt_def size_of_def dest: nth_mem)
      let ?w2 = "mergeInto item r w"
      note f = mergeInto_fields [OF ne, of w]
      have dec: "nat (stackSize (items ?w2 item)) < nat ?rem"
        and nn: "0 \<le> stackSize (items ?w2 item)"
        using pos sp by (simp_all add: f(1))
      have inv: "addInv ?w2 c item"
        using al ni mx by (simp add: addInv_def f)
      have J2: "J ?w2" by (rule merge [OF less.prems(1) Jw pos lo r ne])
      from less.hyps [OF dec inv J2] obtain w' where
        "addLoop c item ?w2 = Some w'" "J w'"
        "stackSize (items w' item) \<le> 0 \<or> addStuck w' c item"
        "0 \<le> stackSize (items ?w2 item) \<longrightarrow> 0 \<le> stackSize (items w' item)"
        by blast
      with nn show ?thesis
        unfolding addLoop_merge [OF pos lo r] by simp
    next
      case nomerge: False
      then have nm: "\<forall>i. \<not> mergeableAt w c item i" by simp
      show ?thesis
      proof (cases "\<exists>j. emptyAt w c j")
        case True
        then obtain j where lo: "lowest (emptyAt w c) j" using lowest_ex by blast
        let ?w2 = "placeAt c item j w"
        note f = placeAt_fields [OF al, of c j]
        have dec: "nat (stackSize (items ?w2 item)) < nat ?rem"
          and nn: "0 \<le> stackSize (items ?w2 item)"
          using pos mx by (simp_all add: f(1))
        define v where "v = (if min (maxStackSize (items w item)) ?rem = 0
                     \<or> item_identifier (items w item) = Air
                  then None else Some (nextItemRef w))"
        have v: "v \<noteq> Some item" using al by (simp add: v_def)
        have sub: "set (elems (storage (containers ?w2 c))) \<subseteq>
                insert v (set (elems (storage (containers w c))))"
          unfolding f(4) v_def by (rule set_storage_set [OF inrange_size])
        have "Some item \<notin> set (elems (storage (containers ?w2 c)))"
        proof
          assume "Some item \<in> set (elems (storage (containers ?w2 c)))"
          then have "Some item \<in> insert v (set (elems (storage (containers w c))))"
            by (rule subsetD [OF sub])
          with v ni show False by simp
        qed
        moreover have "item < nextItemRef ?w2" using al by (simp add: f(3))
        moreover have "0 < maxStackSize (items ?w2 item)" using mx by (simp add: f(2))
        ultimately have inv: "addInv ?w2 c item"
          unfolding addInv_def by blast
        have J2: "J ?w2" by (rule place [OF less.prems(1) Jw pos nm lo])
        from less.hyps [OF dec inv J2] obtain w' where
          "addLoop c item ?w2 = Some w'" "J w'"
          "stackSize (items w' item) \<le> 0 \<or> addStuck w' c item"
          "0 \<le> stackSize (items ?w2 item) \<longrightarrow> 0 \<le> stackSize (items w' item)"
          by blast
        with nn show ?thesis
          unfolding addLoop_place [OF pos nm lo] by simp
      next
        case False
        then have "\<forall>j. \<not> emptyAt w c j" by simp
        with nm pos Jw show ?thesis
          by (simp add: addLoop_full addStuck_def)
      qed
    qed
  qed
qed









text \<open>
  On the path for a stackable stack the quantity is conserved: what the slots gained is
  what the caller's stack lost.
\<close>

lemma sum_list_map_update:
  fixes f :: "'a \<Rightarrow> int"
  shows "j < length xs \<Longrightarrow>
         sum_list (map f (xs[j := v])) = sum_list (map f xs) - f (xs ! j) + f v"
proof (induction xs arbitrary: j)
  case Nil
  then show ?case by simp
next
  case (Cons x xs)
  then show ?case by (cases j) simp_all
qed

lemma sum_list_map_bump:
  fixes f g :: "'a option \<Rightarrow> int"
  assumes "distinct (filter (\<lambda>x. x \<noteq> None) xs)" and "Some r \<in> set xs"
    and "\<And>x. x \<in> set xs \<Longrightarrow> x \<noteq> Some r \<Longrightarrow> g x = f x" and "g (Some r) = f (Some r) + n"
  shows "sum_list (map g xs) = sum_list (map f xs) + n"
proof -
  from assms(2) obtain ys zs where xs: "xs = ys @ Some r # zs" by (auto dest: split_list)
  from assms(1) have "Some r \<notin> set ys" "Some r \<notin> set zs"
    unfolding xs by auto
  with assms(3) have "\<forall>x \<in> set ys. g x = f x" "\<forall>x \<in> set zs. g x = f x"
    unfolding xs by auto
  then have "map g ys = map f ys" "map g zs = map f zs" by simp_all
  then have "sum_list (map g ys) = sum_list (map f ys)" "sum_list (map g zs) = sum_list (map f zs)"
    by (simp_all only:)
  with assms(4) show ?thesis unfolding xs by simp
qed

lemma mergeInto_items:
  "r \<noteq> item \<Longrightarrow> items (mergeInto item r w) =
     (items w)(r := (items w r)\<lparr>stackSize := stackSize (items w r) +
                   min (maxStackSize (items w r) - stackSize (items w r)) (stackSize (items w item))\<rparr>,
               item := (items w item)\<lparr>stackSize := stackSize (items w item) -
                   min (maxStackSize (items w r) - stackSize (items w r)) (stackSize (items w item))\<rparr>)"
  by (simp add: mergeInto_def Let_def decrementStack_def incrementStack_def setStackSize_def)

lemma placeAt_items:
  "item < nextItemRef w \<Longrightarrow> items (placeAt c item j w) =
     (items w)(nextItemRef w := (items w item)
                  \<lparr>stackSize := min (maxStackSize (items w item)) (stackSize (items w item)),
                   traits := [], container := Some c\<rparr>,
               item := (items w item)\<lparr>stackSize := stackSize (items w item) -
                   min (maxStackSize (items w item)) (stackSize (items w item))\<rparr>)"
  by (simp add: placeAt_def Let_def new_ItemStack_def decrementStack_def setStackSize_def)

lemma conserved_merge:
  assumes inv: "addInv w c item" and J: "conserved c item q w"
    and lo: "lowest (mergeableAt w c item) i"
    and r: "elems (storage (containers w c)) ! i = Some r" and ne: "r \<noteq> item"
  shows "conserved c item q (mergeInto item r w)"
proof -
  let ?w2 = "mergeInto item r w"
  let ?xs = "elems (storage (containers w c))"
  let ?n = "min (maxStackSize (items w r) - stackSize (items w r)) (stackSize (items w item))"
  note f = mergeInto_fields [OF ne, of w]
  note it = mergeInto_items [OF ne, of w]
  from inv have ni: "Some item \<notin> set ?xs" by (simp add: addInv_def)
  from J have ok: "storeOK w c" and na: "item_identifier (items w item) \<noteq> Air"
    and q: "totalQuantity w c + stackSize (items w item) = q"
    by (simp_all add: conserved_def)
  from lo have "i < length ?xs" by (simp add: lowest_def mergeableAt_def size_of_def)
  with r have mem: "Some r \<in> set ?xs" by (metis nth_mem)
  have same0: "slotQuantity ?w2 x = slotQuantity w x" if "x \<noteq> Some item" "x \<noteq> Some r" for x
    using that by (cases x) (simp_all add: slotQuantity_def it)
  have same: "slotQuantity ?w2 x = slotQuantity w x" if "x \<in> set ?xs" "x \<noteq> Some r" for x
  proof -
    from that(1) ni have "x \<noteq> Some item" by blast
    then show ?thesis using that(2) by (rule same0)
  qed
  have bump: "slotQuantity ?w2 (Some r) = slotQuantity w (Some r) + ?n"
    using ne by (simp add: slotQuantity_def it)
  from ok have d: "distinct (filter (\<lambda>x. x \<noteq> None) ?xs)" by (simp add: storeOK_def)
  have "totalQuantity ?w2 c = totalQuantity w c + ?n"
    unfolding totalQuantity_def f(3)
    by (rule sum_list_map_bump [where f = "slotQuantity w" and g = "slotQuantity ?w2",
          OF d mem same bump])
  moreover have "storeOK ?w2 c" using ok by (simp add: storeOK_def f)
  moreover have "item_identifier (items ?w2 item) \<noteq> Air" using na by (simp add: it)
  ultimately show ?thesis using q by (simp add: conserved_def f(1))
qed


lemma distinct_filter_update:
  assumes "distinct (filter P xs)" "j < length xs" "\<not> P (xs ! j)" "v \<notin> set xs"
  shows "distinct (filter P (xs[j := v]))"
proof -
  have xs: "xs = take j xs @ xs ! j # drop (Suc j) xs"
    using assms(2) by (rule id_take_nth_drop)
  have up: "xs[j := v] = take j xs @ v # drop (Suc j) xs"
    using assms(2) by (rule upd_conv_take_nth_drop)
  from assms(4) have v: "v \<notin> set (take j xs)" "v \<notin> set (drop (Suc j) xs)"
    by (auto dest: in_set_takeD in_set_dropD)
  from assms(1) have "distinct (filter P (take j xs @ xs ! j # drop (Suc j) xs))"
    by (simp only: xs [symmetric])
  with assms(3) v show ?thesis unfolding up by auto
qed

lemma conserved_place:
  assumes inv: "addInv w c item" and J: "conserved c item q w"
    and pos: "0 < stackSize (items w item)"
    and lo: "lowest (emptyAt w c) j"
  shows "conserved c item q (placeAt c item j w)"
proof -
  let ?w2 = "placeAt c item j w"
  let ?xs = "elems (storage (containers w c))"
  let ?r = "nextItemRef w"
  let ?n = "min (maxStackSize (items w item)) (stackSize (items w item))"
  from inv have al: "item < ?r" and ni: "Some item \<notin> set ?xs"
    and mx: "0 < maxStackSize (items w item)"
    by (simp_all add: addInv_def)
  from J have ok: "storeOK w c" and na: "item_identifier (items w item) \<noteq> Air"
    and q: "totalQuantity w c + stackSize (items w item) = q"
    by (simp_all add: conserved_def)
  from ok have d: "distinct (filter (\<lambda>x. x \<noteq> None) ?xs)"
    and lt: "\<And>r. Some r \<in> set ?xs \<Longrightarrow> r < ?r"
    by (simp_all add: storeOK_def)
  from lt have fresh: "Some ?r \<notin> set ?xs" by blast
  from lo have j: "j < length ?xs" and e: "?xs ! j = None"
    by (simp_all add: lowest_def emptyAt_def size_of_def)
  note f = placeAt_fields [OF al, of c j]
  note it = placeAt_items [OF al, of c j]
  from j have sz: "0 < size_of w c" "int j < int (size_of w c)" by (auto simp: size_of_def)
  have k: "js_rem (Num (int j)) (size_of w c) = Num (int j)"
    unfolding js_rem_cases [OF sz(1)] using sz(2) by simp
  have n0: "?n \<noteq> 0" using pos mx by simp
  have el: "elems (storage (containers ?w2 c)) = ?xs[j := Some ?r]"
    unfolding f(4) k using j na n0 by simp
  have same: "slotQuantity ?w2 x = slotQuantity w x" if "x \<in> set ?xs" for x
  proof (cases x)
    case None
    then show ?thesis by (simp add: slotQuantity_def)
  next
    case (Some r)
    with that ni fresh have "r \<noteq> item" "r \<noteq> ?r" by auto
    with Some show ?thesis by (simp add: slotQuantity_def it)
  qed
  then have m: "map (slotQuantity ?w2) ?xs = map (slotQuantity w) ?xs" by simp
  have new: "slotQuantity ?w2 (Some ?r) = ?n"
    using al by (simp add: slotQuantity_def it)
  have old: "slotQuantity ?w2 (?xs ! j) = 0" by (simp add: e slotQuantity_def)
  have "totalQuantity ?w2 c = totalQuantity w c + ?n"
    unfolding totalQuantity_def el sum_list_map_update [OF j] m new old by simp
  moreover have "storeOK ?w2 c"
  proof -
    have "distinct (filter (\<lambda>x. x \<noteq> None) (?xs[j := Some ?r]))"
      using d j e fresh by (intro distinct_filter_update) simp_all
    moreover have "r < Suc ?r" if "Some r \<in> set (?xs[j := Some ?r])" for r
    proof -
      from that have "Some r \<in> insert (Some ?r) (set ?xs)"
        by (rule subsetD [OF set_update_subset_insert])
      then show ?thesis using lt [of r] by auto
    qed
    ultimately show ?thesis by (simp add: storeOK_def el f(3))
  qed
  moreover have "item_identifier (items ?w2 item) \<noteq> Air" using na by (simp add: it)
  ultimately show ?thesis using q by (simp add: conserved_def f(1))
qed

lemma addItem_stackable_conserves:
  assumes st: "isStackable (items w item)" and inv: "addInv w c item"
    and ok: "storeOK w c" and na: "item_identifier (items w item) \<noteq> Air"
  shows "\<exists>b w'. addItem c item w = Some (b, w')
           \<and> stackSize (items w item) =
               (totalQuantity w' c - totalQuantity w c) + stackSize (items w' item)"
proof -
  define q where "q = totalQuantity w c + stackSize (items w item)"
  have J: "conserved c item q w" using ok na by (simp add: conserved_def q_def)
  have "\<exists>w'. addLoop c item w = Some w' \<and> conserved c item q w'
           \<and> (stackSize (items w' item) \<le> 0 \<or> addStuck w' c item)
           \<and> (0 \<le> stackSize (items w item) \<longrightarrow> 0 \<le> stackSize (items w' item))"
  proof (rule addLoop_invariant [where J = "conserved c item q", OF inv J])
    fix w i r
    assume "addInv w c item" "conserved c item q w" "lowest (mergeableAt w c item) i"
      "elems (storage (containers w c)) ! i = Some r" "r \<noteq> item"
    then show "conserved c item q (mergeInto item r w)" by (rule conserved_merge)
  next
    fix w j
    assume "addInv w c item" "conserved c item q w" "0 < stackSize (items w item)"
      "lowest (emptyAt w c) j"
    then show "conserved c item q (placeAt c item j w)" by (rule conserved_place)
  qed
  then obtain w' where r: "addLoop c item w = Some w'" and c: "conserved c item q w'"
    by blast
  from c have "totalQuantity w' c + stackSize (items w' item) = q" by (simp add: conserved_def)
  then have "stackSize (items w item) =
               (totalQuantity w' c - totalQuantity w c) + stackSize (items w' item)"
    by (simp add: q_def)
  with r st show ?thesis by (simp add: addItem_def)
qed

text \<open>
  C1. On the path just treated the claim holds (\<open>addItem_stackable_conserves\<close>).
  The quantity is not conserved on the path for a stack that does not stack. The stack
  is put into the first empty slot as it is, and the assignment \<open>item.stackSize = 0\<close> then
  empties that very object: the caller's stack went from 1 to 0 and the slot holds a stack
  of size 0, so nothing was deposited.
\<close>

theorem addItem_nonstackable_alias:
  "\<exists>w'. addItem 0 2 world1 = Some (True, w')
     \<and> stackSize (items world1 2) = 1 \<and> totalQuantity world1 0 = 0
     \<and> getItem w' 0 (Num 0) = Some 2 \<and> stackSize (items w' 2) = 0
     \<and> totalQuantity w' 0 = 0"
  by (simp add: world1_def world_simps add_simps totalQuantity_def slotQuantity_def)

subsection \<open>Swapping a stack of size zero\<close>

text \<open>
  After \<open>addItem\<close> of a stack that does not stack, slot 0 holds a stack of size 0. The
  first swap of the slots 0 and 1 takes it out and \<open>setItem\<close> does not put it into slot 1;
  the second swap has nothing to move, and the stack is gone from both slots.
\<close>

theorem swapItems_zero_stack_counterexample:
  "addItem 0 2 world1b \<noteq> None
   \<and> elems (storage (containers afterAdd 0)) = [Some 2, None]
   \<and> stackSize (items afterAdd 2) = 0
   \<and> elems (storage (containers
         (swapItems 0 (Num 0) (Num 1) None (swapItems 0 (Num 0) (Num 1) None afterAdd)) 0))
       = [None, None]"
  by (simp add: afterAdd_def world1b_def world_simps add_simps swapItems_def numeral_2_eq_2)

end
